theory Spec2Isabelle
  imports Main
begin

unbundle bit_operations_syntax

section \<open>Python values used by \<open>jellyfish.py\<close>\<close>

text \<open>
  The module is Python 2 (\<open>range(nodes / hosts_per_switch, switches)\<close> needs the integer
  \<open>/\<close>): integers are unbounded (\<open>int\<close>), \<open>/\<close> and \<open>%\<close> on them are floor division and
  its remainder (HOL's \<open>div\<close> and \<open>mod\<close> on \<open>int\<close>, with an exception for a zero divisor),
  strings are byte strings. The exceptions the module can meet are values.
\<close>

datatype py_error = ValueError | AttributeError | IndexError | TypeError | ZeroDivisionError

subsection \<open>\<open>"%d" % n\<close>, \<open>"%02x" % n\<close> and \<open>int(text)\<close>\<close>

definition digit_char :: "nat \<Rightarrow> char" where
  "digit_char d = (if d < 10 then char_of (48 + d) else char_of (87 + d))"

fun dec_digits :: "nat \<Rightarrow> string" where
  "dec_digits n =
     (if n < 10 then [digit_char n] else dec_digits (n div 10) @ [digit_char (n mod 10)])"

declare dec_digits.simps [simp del]

fun hex_digits :: "nat \<Rightarrow> string" where
  "hex_digits n =
     (if n < 16 then [digit_char n] else hex_digits (n div 16) @ [digit_char (n mod 16)])"

declare hex_digits.simps [simp del]

text \<open>\<open>"%d" % i\<close> (and \<open>"%i" % i\<close>): the decimal digits, after a minus sign for a negative \<open>i\<close>.\<close>

definition fmt_d :: "int \<Rightarrow> string" where
  "fmt_d i = (if i < 0 then CHR ''-'' # dec_digits (nat (- i)) else dec_digits (nat i))"

text \<open>\<open>"%0<w>x" % i\<close>: lower-case hexadecimal, zero-filled to \<open>w\<close> characters, sign included.\<close>

definition zfill :: "nat \<Rightarrow> string \<Rightarrow> string" where
  "zfill w s = replicate (w - length s) CHR ''0'' @ s"

definition fmt_0x :: "nat \<Rightarrow> int \<Rightarrow> string" where
  "fmt_0x w i =
     (if i < 0 then CHR ''-'' # zfill (w - 1) (hex_digits (nat (- i)))
      else zfill w (hex_digits (nat i)))"

text \<open>
  \<open>int(text)\<close> on a byte string, base 10: white space around the literal is dropped, one
  sign is allowed, then at least one decimal digit and nothing else; anything else raises
  \<open>ValueError\<close>.
\<close>

definition is_space :: "char \<Rightarrow> bool" where
  "is_space c = (c \<in> set [CHR '' '', CHR 0x09, CHR 0x0A, CHR 0x0B, CHR 0x0C, CHR 0x0D])"

definition is_digit :: "char \<Rightarrow> bool" where
  "is_digit c = (48 \<le> (of_char c :: nat) \<and> (of_char c :: nat) \<le> 57)"

definition strip :: "string \<Rightarrow> string" where
  "strip s = rev (dropWhile is_space (rev (dropWhile is_space s)))"

definition digits_value :: "string \<Rightarrow> nat" where
  "digits_value ds = foldl (\<lambda>a c. 10 * a + (of_char c - 48)) 0 ds"

definition py_int :: "string \<Rightarrow> py_error + int" where
  "py_int s =
     (let t = strip s;
          neg = (t \<noteq> [] \<and> hd t = CHR ''-'');
          ds = (if t \<noteq> [] \<and> (hd t = CHR ''-'' \<or> hd t = CHR ''+'') then tl t else t)
      in if ds \<noteq> [] \<and> list_all is_digit ds
         then Inr (if neg then - int (digits_value ds) else int (digits_value ds))
         else Inl ValueError)"

text \<open>\<open>range(a, b)\<close>: the integers from \<open>a\<close> up to \<open>b - 1\<close>, none when \<open>b \<le> a\<close>.\<close>

definition py_range :: "int \<Rightarrow> int \<Rightarrow> int list" where
  "py_range a b = map (\<lambda>k. a + int k) [0..<nat (b - a)]"

section \<open>\<open>JellyfishNodeID\<close>\<close>

record JellyfishNodeID =
  switch_id :: int
  host_id :: int
  dpid :: int

text \<open>
  \<open>JellyfishNodeID.__init__(switch_id=None, host_id=None, dpid=None, name=None)\<close>.
  With a name: \<open>name[0]\<close> raises \<open>IndexError\<close> on the empty string; a first letter other
  than \<open>h\<close> and \<open>s\<close> assigns neither field, so reading \<open>self.switch_id\<close> for the dpid raises
  \<open>AttributeError\<close>; \<open>int(name[1:])\<close> raises \<open>ValueError\<close>. Without a name and a dpid, a
  missing index makes \<open><<\<close> or \<open>+\<close> raise \<open>TypeError\<close>.
\<close>

definition JellyfishNodeID_init ::
  "int option \<Rightarrow> int option \<Rightarrow> int option \<Rightarrow> string option \<Rightarrow> py_error + JellyfishNodeID" where
  "JellyfishNodeID_init sw_id h_id dp name =
     (case name of
        Some nm \<Rightarrow>
          (if nm = [] then Inl IndexError
           else if hd nm = CHR ''h'' then
             (case py_int (tl nm) of
                Inl e \<Rightarrow> Inl e
              | Inr n \<Rightarrow> Inr \<lparr>switch_id = n, host_id = n, dpid = push_bit 8 n + n\<rparr>)
           else if hd nm = CHR ''s'' then
             (case py_int (tl nm) of
                Inl e \<Rightarrow> Inl e
              | Inr n \<Rightarrow> Inr \<lparr>switch_id = n, host_id = 255, dpid = push_bit 8 n + 255\<rparr>)
           else Inl AttributeError)
      | None \<Rightarrow>
          (case dp of
             Some d \<Rightarrow>
               Inr \<lparr>switch_id = drop_bit 8 (d AND 0xff00), host_id = d AND 0xff, dpid = d\<rparr>
           | None \<Rightarrow>
               (case (sw_id, h_id) of
                  (Some s, Some h) \<Rightarrow> Inr \<lparr>switch_id = s, host_id = h, dpid = push_bit 8 s + h\<rparr>
                | _ \<Rightarrow> Inl TypeError)))"

text \<open>The three ways the module and its callers build an identifier.\<close>

definition fromName :: "string \<Rightarrow> py_error + JellyfishNodeID" where
  "fromName nm = JellyfishNodeID_init None None None (Some nm)"

definition fromCompositeId :: "int \<Rightarrow> py_error + JellyfishNodeID" where
  "fromCompositeId d = JellyfishNodeID_init None None (Some d) None"

definition id_gen :: "int \<Rightarrow> int \<Rightarrow> py_error + JellyfishNodeID" where
  "id_gen s h = JellyfishNodeID_init (Some s) (Some h) None None"

text \<open>\<open>__str__\<close> and \<open>name_str\<close>: host index 255 marks a switch.\<close>

definition name_str :: "JellyfishNodeID \<Rightarrow> string" where
  "name_str i =
     (if host_id i = 255 then CHR ''s'' # fmt_d (switch_id i) else CHR ''h'' # fmt_d (host_id i))"

definition ip_str :: "JellyfishNodeID \<Rightarrow> string" where
  "ip_str i =
     (let mid = drop_bit 8 (dpid i AND 0xff00); lo = dpid i AND 0xff
      in ''10.0.'' @ fmt_d mid @ ''.'' @ fmt_d lo)"

definition mac_str :: "JellyfishNodeID \<Rightarrow> string" where
  "mac_str i =
     (let mid = drop_bit 8 (dpid i AND 0xff00); lo = dpid i AND 0xff
      in ''00:00:00:00:'' @ fmt_0x 2 mid @ '':'' @ fmt_0x 2 lo)"

section \<open>The graph container the topology is written to\<close>

text \<open>
  \<open>StructuredTopo\<close> extends the emulator library's \<open>Topo\<close>, which is not part of the
  repository. Its boundary is modelled by what the module hands to it: the \<open>addHost\<close> and
  \<open>addSwitch\<close> calls in order (a node registered again replaces its earlier options, as the
  library's dictionary does), the \<open>addLink\<close> calls in order, and the two specification lists
  stored by \<open>StructuredTopo.__init__\<close>.
\<close>

record StructuredNodeSpec =
  up_total :: int
  down_total :: int
  up_speed :: int
  down_speed :: "int option"
  type_str :: "string option"

record nopts =
  layer :: int
  ip :: "string option"
  mac :: "string option"
  dpid_hex :: "string option"

record Topo =
  t_nodes :: "(string \<times> bool \<times> nopts) list"
  t_links :: "(string \<times> string \<times> int) list"
  node_specs :: "StructuredNodeSpec list"
  edge_specs :: "int list"

definition LAYER_EDGE :: int where
  "LAYER_EDGE = 2"

definition LAYER_HOST :: int where
  "LAYER_HOST = 3"

definition addHost :: "string \<Rightarrow> nopts \<Rightarrow> Topo \<Rightarrow> Topo" where
  "addHost name opts t = t\<lparr>t_nodes := t_nodes t @ [(name, False, opts)]\<rparr>"

definition addSwitch :: "string \<Rightarrow> nopts \<Rightarrow> Topo \<Rightarrow> Topo" where
  "addSwitch name opts t = t\<lparr>t_nodes := t_nodes t @ [(name, True, opts)]\<rparr>"

definition addLink :: "string \<Rightarrow> string \<Rightarrow> int \<Rightarrow> Topo \<Rightarrow> Topo" where
  "addLink a b bw t = t\<lparr>t_links := t_links t @ [(a, b, bw)]\<rparr>"

definition isSwitch :: "Topo \<Rightarrow> string \<Rightarrow> bool" where
  "isSwitch t n =
     (case find (\<lambda>e. fst e = n) (rev (t_nodes t)) of
        Some e \<Rightarrow> fst (snd e)
      | None \<Rightarrow> False)"

text \<open>
  \<open>self.switches()\<close>: the library returns the switch names in its own sorted order of the
  node names. The sort is the library's, so it is the parameter \<open>srt\<close>.
\<close>

definition topo_switches :: "(string list \<Rightarrow> string list) \<Rightarrow> Topo \<Rightarrow> string list" where
  "topo_switches srt t = filter (isSwitch t) (srt (remdups (map fst (t_nodes t))))"

text \<open>\<open>JellyfishTopo.def_nopts(layer, name)\<close>; \<open>if name:\<close> is false for the empty string.\<close>

definition def_nopts :: "int \<Rightarrow> string \<Rightarrow> py_error + nopts" where
  "def_nopts lay name =
     (if name = [] then Inr \<lparr>layer = lay, ip = None, mac = None, dpid_hex = None\<rparr>
      else
        (case fromName name of
           Inl e \<Rightarrow> Inl e
         | Inr i \<Rightarrow>
             Inr \<lparr>layer = lay,
                  ip = (if lay = LAYER_HOST then Some (ip_str i) else None),
                  mac = (if lay = LAYER_HOST then Some (mac_str i) else None),
                  dpid_hex = Some (fmt_0x 16 (dpid i))\<rparr>))"

section \<open>\<open>JellyfishTopo.addHosts\<close>\<close>

definition py_mod :: "int \<Rightarrow> int \<Rightarrow> py_error + int" where
  "py_mod a b = (if b = 0 then Inl ZeroDivisionError else Inr (a mod b))"

definition py_div :: "int \<Rightarrow> int \<Rightarrow> py_error + int" where
  "py_div a b = (if b = 0 then Inl ZeroDivisionError else Inr (a div b))"

record hosts_loop =
  switch_num :: int
  host_list :: "string list"
  topo :: Topo

text \<open>One iteration of \<open>for num in range(0, nodes)\<close>.\<close>

definition addHosts_body :: "int \<Rightarrow> int \<Rightarrow> hosts_loop \<Rightarrow> int \<Rightarrow> py_error + hosts_loop" where
  "addHosts_body bw hosts_per_switch st num =
     (case id_gen (num + 1) (num + 1) of
        Inl e \<Rightarrow> Inl e
      | Inr hid \<Rightarrow>
          (case def_nopts LAYER_HOST (name_str hid) of
             Inl e \<Rightarrow> Inl e
           | Inr host_opts \<Rightarrow>
               (case py_mod num hosts_per_switch of
                  Inl e \<Rightarrow> Inl e
                | Inr r \<Rightarrow>
                    (if r = 0 then
                       (case id_gen (switch_num st) 255 of
                          Inl e \<Rightarrow> Inl e
                        | Inr sid \<Rightarrow>
                            (case def_nopts LAYER_EDGE (name_str sid) of
                               Inl e \<Rightarrow> Inl e
                             | Inr switch_opts \<Rightarrow>
                                 Inr \<lparr>switch_num = switch_num st + 1,
                                      host_list = [],
                                      topo =
                                        foldl (\<lambda>t host. addLink host (name_str sid) bw t)
                                          (addSwitch (name_str sid) switch_opts
                                             (addHost (name_str hid) host_opts (topo st)))
                                          (host_list st @ [name_str hid])\<rparr>))
                     else
                       Inr \<lparr>switch_num = switch_num st,
                            host_list = host_list st @ [name_str hid],
                            topo = addHost (name_str hid) host_opts (topo st)\<rparr>))))"

fun addHosts_loop :: "int \<Rightarrow> int \<Rightarrow> hosts_loop \<Rightarrow> int list \<Rightarrow> py_error + hosts_loop" where
  "addHosts_loop bw hosts_per_switch st [] = Inr st"
| "addHosts_loop bw hosts_per_switch st (num # nums) =
     (case addHosts_body bw hosts_per_switch st num of
        Inl e \<Rightarrow> Inl e
      | Inr st' \<Rightarrow> addHosts_loop bw hosts_per_switch st' nums)"

text \<open>The second loop, \<open>for num in range(nodes / hosts_per_switch, switches)\<close>.\<close>

fun addHosts_fill :: "Topo \<Rightarrow> int list \<Rightarrow> py_error + Topo" where
  "addHosts_fill t [] = Inr t"
| "addHosts_fill t (num # nums) =
     (case id_gen (num + 1) 255 of
        Inl e \<Rightarrow> Inl e
      | Inr sid \<Rightarrow>
          (case def_nopts LAYER_EDGE (name_str sid) of
             Inl e \<Rightarrow> Inl e
           | Inr switch_opts \<Rightarrow> addHosts_fill (addSwitch (name_str sid) switch_opts t) nums))"

definition addHosts :: "int \<Rightarrow> int \<Rightarrow> int \<Rightarrow> int \<Rightarrow> int \<Rightarrow> Topo \<Rightarrow> py_error + Topo" where
  "addHosts bw switches nodes ports_per_switch hosts_per_switch t =
     (case addHosts_loop bw hosts_per_switch \<lparr>switch_num = 1, host_list = [], topo = t\<rparr>
             (py_range 0 nodes) of
        Inl e \<Rightarrow> Inl e
      | Inr st \<Rightarrow>
          (case py_div nodes hosts_per_switch of
             Inl e \<Rightarrow> Inl e
           | Inr q \<Rightarrow> addHosts_fill (topo st) (py_range q switches)))"

section \<open>The random source\<close>

text \<open>
  Python's \<open>random\<close> module is outside the repository. Its state is the stream of raw
  outputs still to come; \<open>random.choice(seq)\<close> takes the next output \<open>d\<close> and returns
  \<open>seq[d mod len(seq)]\<close>, so that every element of \<open>seq\<close> can be drawn and nothing else,
  and raises \<open>IndexError\<close> on an empty sequence. \<open>random.seed(seed)\<close> replaces the state by
  the stream that belongs to the seed; which stream that is, is the parameter \<open>random_seed\<close>
  of the constructor below.
\<close>

type_synonym rng = "nat \<Rightarrow> nat"

definition random_choice :: "rng \<Rightarrow> 'b list \<Rightarrow> py_error + ('b \<times> rng)" where
  "random_choice g xs =
     (if xs = [] then Inl IndexError
      else Inr (xs ! (g 0 mod length xs), (\<lambda>k. g (Suc k))))"

section \<open>\<open>JellyfishTopo.create_topology\<close>\<close>

fun not_fully_connected :: "'a list \<Rightarrow> ('a \<times> 'a) list \<Rightarrow> bool" where
  "not_fully_connected [] link_list = False"
| "not_fully_connected (switch # rest) link_list =
     ((\<exists>switch2 \<in> set rest. (switch, switch2) \<notin> set link_list \<and> (switch2, switch) \<notin> set link_list)
      \<or> not_fully_connected rest link_list)"

definition count_links_with_switch :: "'a \<Rightarrow> ('a \<times> 'a) list \<Rightarrow> int" where
  "count_links_with_switch switch link_list =
     int (length (filter (\<lambda>link. switch = fst link \<or> switch = snd link) link_list))"

fun switch_is_fully_connected :: "'a \<Rightarrow> ('a \<times> 'a) list \<Rightarrow> 'a list \<Rightarrow> bool" where
  "switch_is_fully_connected switch links [] = True"
| "switch_is_fully_connected switch links (s # switches) =
     (if s = switch then switch_is_fully_connected switch links switches
      else if (switch, s) \<notin> set links \<or> (s, switch) \<notin> set links then False
      else switch_is_fully_connected switch links switches)"

record 'a build_state =
  switch_list :: "'a list"
  added_links :: "('a \<times> 'a) list"
  gen :: rng

text \<open>
  The body of the first \<open>while\<close> loop. \<open>switch_list.remove(x)\<close> drops the first occurrence
  of \<open>x\<close>; both endpoints were drawn from the list and differ, so each is still in it when
  it is removed.
\<close>

definition phase1_step :: "int \<Rightarrow> 'a build_state \<Rightarrow> py_error + 'a build_state" where
  "phase1_step ports_per_switch st =
     (case random_choice (gen st) (switch_list st) of
        Inl e \<Rightarrow> Inl e
      | Inr (switch, g1) \<Rightarrow>
          (case random_choice g1 (switch_list st) of
             Inl e \<Rightarrow> Inl e
           | Inr (switch2, g2) \<Rightarrow>
               (if switch = switch2 then Inr (st\<lparr>gen := g2\<rparr>)
                else if (switch, switch2) \<in> set (added_links st)
                        \<or> (switch2, switch) \<in> set (added_links st)
                then Inr (st\<lparr>gen := g2\<rparr>)
                else
                  (let links = added_links st @ [(switch, switch2)];
                       sl1 = (if count_links_with_switch switch links = ports_per_switch
                                 \<or> switch_is_fully_connected switch links (switch_list st)
                              then remove1 switch (switch_list st) else switch_list st);
                       sl2 = (if count_links_with_switch switch2 links = ports_per_switch
                                 \<or> switch_is_fully_connected switch2 links sl1
                              then remove1 switch2 sl1 else sl1)
                   in Inr \<lparr>switch_list = sl2, added_links = links, gen = g2\<rparr>))))"

text \<open>
  The first \<open>while\<close> loop. Nothing bounds the number of its iterations, so the loop is a
  partial function: \<open>None\<close> is the run that never leaves it.
\<close>

partial_function (option) phase1 ::
  "int \<Rightarrow> 'a build_state \<Rightarrow> (py_error + 'a build_state) option" where
  "phase1 ports_per_switch st =
     (if 1 < length (switch_list st) \<and> not_fully_connected (switch_list st) (added_links st)
      then
        (case phase1_step ports_per_switch st of
           Inl e \<Rightarrow> Some (Inl e)
         | Inr st' \<Rightarrow> phase1 ports_per_switch st')
      else Some (Inr st))"

text \<open>
  One switch of \<open>for switch in switch_list\<close> inside \<open>while True\<close>; the flag is
  \<open>completed\<close>. \<open>added_links.remove(link)\<close> drops the first occurrence of the drawn link.
\<close>

definition phase2_visit ::
  "int \<Rightarrow> 'a \<Rightarrow> bool \<times> 'a build_state \<Rightarrow> py_error + (bool \<times> 'a build_state)" where
  "phase2_visit ports_per_switch switch cs =
     (if switch_is_fully_connected switch (added_links (snd cs)) (switch_list (snd cs))
      then Inr cs
      else if count_links_with_switch switch (added_links (snd cs)) < ports_per_switch - 1 then
        (case random_choice (gen (snd cs)) (added_links (snd cs)) of
           Inl e \<Rightarrow> Inl e
         | Inr (link, g') \<Rightarrow>
             (if switch = fst link \<or> switch = snd link then Inr (False, (snd cs)\<lparr>gen := g'\<rparr>)
              else
                Inr (False,
                     (snd cs)\<lparr>added_links :=
                                 remove1 link (added_links (snd cs))
                                 @ [(switch, fst link), (switch, snd link)],
                               gen := g'\<rparr>)))
      else Inr cs)"

fun phase2_pass ::
  "int \<Rightarrow> 'a list \<Rightarrow> bool \<times> 'a build_state \<Rightarrow> py_error + (bool \<times> 'a build_state)" where
  "phase2_pass ports_per_switch [] cs = Inr cs"
| "phase2_pass ports_per_switch (switch # rest) cs =
     (case phase2_visit ports_per_switch switch cs of
        Inl e \<Rightarrow> Inl e
      | Inr cs' \<Rightarrow> phase2_pass ports_per_switch rest cs')"

text \<open>The \<open>while True\<close> loop, left only by \<open>if completed: break\<close>.\<close>

partial_function (option) phase2 ::
  "int \<Rightarrow> 'a build_state \<Rightarrow> (py_error + 'a build_state) option" where
  "phase2 ports_per_switch st =
     (case phase2_pass ports_per_switch (switch_list st) (True, st) of
        Inl e \<Rightarrow> Some (Inl e)
      | Inr cs \<Rightarrow> (if fst cs then Some (Inr (snd cs)) else phase2 ports_per_switch (snd cs)))"

text \<open>Both loops on a list of switches: what \<open>create_topology\<close> does between host attachment
  and the final \<open>addLink\<close> calls.\<close>

definition build_links :: "int \<Rightarrow> 'a build_state \<Rightarrow> (py_error + 'a build_state) option" where
  "build_links ports_per_switch st =
     (case phase1 ports_per_switch st of
        None \<Rightarrow> None
      | Some (Inl e) \<Rightarrow> Some (Inl e)
      | Some (Inr st1) \<Rightarrow> phase2 ports_per_switch st1)"

definition create_topology ::
  "(string list \<Rightarrow> string list) \<Rightarrow> int \<Rightarrow> int \<Rightarrow> int \<Rightarrow> int \<Rightarrow> int \<Rightarrow> Topo \<Rightarrow> rng
     \<Rightarrow> (py_error + Topo \<times> rng) option" where
  "create_topology srt bw switches nodes ports_per_switch hosts_per_switch t g =
     (case addHosts bw switches nodes ports_per_switch hosts_per_switch t of
        Inl e \<Rightarrow> Some (Inl e)
      | Inr t1 \<Rightarrow>
          (case build_links ports_per_switch
                  \<lparr>switch_list = topo_switches srt t1, added_links = [], gen = g\<rparr> of
             None \<Rightarrow> None
           | Some (Inl e) \<Rightarrow> Some (Inl e)
           | Some (Inr st) \<Rightarrow>
               Some (Inr (foldl (\<lambda>t' link. addLink (fst link) (snd link) bw t') t1 (added_links st),
                          gen st))))"

text \<open>
  \<open>JellyfishTopo.__init__(seed, switches, nodes, ports_per_switch, hosts_per_switch, bw)\<close>.
  \<open>g0\<close> is the state of the module-wide random source when the constructor is called;
  \<open>random.seed(seed)\<close> replaces it. The result is the topology and the state the source is
  left in.
\<close>

definition JellyfishTopo_init ::
  "(int \<Rightarrow> rng) \<Rightarrow> (string list \<Rightarrow> string list) \<Rightarrow> rng
     \<Rightarrow> int \<Rightarrow> int \<Rightarrow> int \<Rightarrow> int \<Rightarrow> int \<Rightarrow> int \<Rightarrow> (py_error + Topo \<times> rng) option" where
  "JellyfishTopo_init random_seed srt g0 seed switches nodes ports_per_switch hosts_per_switch bw =
     (let g = random_seed seed;
          node_specs0 =
            [\<lparr>up_total = ports_per_switch - hosts_per_switch, down_total = hosts_per_switch,
              up_speed = bw, down_speed = Some bw, type_str = Some ''edge''\<rparr>,
             \<lparr>up_total = 1, down_total = 0, up_speed = bw, down_speed = None,
              type_str = Some ''host''\<rparr>]
      in create_topology srt bw switches nodes ports_per_switch hosts_per_switch
           \<lparr>t_nodes = [], t_links = [], node_specs = node_specs0, edge_specs = [bw, bw, bw]\<rparr> g)"

section \<open>Reading a finished topology\<close>

text \<open>
  What the statements below read off a topology: the registered names with their
  switch flag, the linked pairs, and, per switch, the number of host links, the number of
  links to other switches and the specification's derived port budget
  \<open>ports_per_switch - hosts_attached - inter_switch_degree\<close>.
\<close>

definition node_names :: "Topo \<Rightarrow> (string \<times> bool) list" where
  "node_names t = map (\<lambda>e. (fst e, fst (snd e))) (t_nodes t)"

definition link_pairs :: "Topo \<Rightarrow> (string \<times> string) list" where
  "link_pairs t = map (\<lambda>l. (fst l, fst (snd l))) (t_links t)"

definition hosts_attached :: "Topo \<Rightarrow> string \<Rightarrow> int" where
  "hosts_attached t s =
     int (length (filter (\<lambda>l. (fst l = s \<and> \<not> isSwitch t (snd l)) \<or> (snd l = s \<and> \<not> isSwitch t (fst l)))
                    (link_pairs t)))"

definition inter_switch_degree :: "Topo \<Rightarrow> string \<Rightarrow> int" where
  "inter_switch_degree t s =
     int (length (filter (\<lambda>l. (fst l = s \<and> isSwitch t (snd l)) \<or> (snd l = s \<and> isSwitch t (fst l)))
                    (link_pairs t)))"

definition port_budget :: "int \<Rightarrow> Topo \<Rightarrow> string \<Rightarrow> int" where
  "port_budget ports_per_switch t s =
     ports_per_switch - hosts_attached t s - inter_switch_degree t s"

text \<open>A random source that replays a given list of outputs and then yields zeros.\<close>

definition replay :: "nat list \<Rightarrow> rng" where
  "replay ds k = (if k < length ds then ds ! k else 0)"

section \<open>Identifiers: formatting and parsing\<close>

lemma of_char_digit_char: "d < 10 \<Longrightarrow> (of_char (digit_char d) :: nat) = 48 + d"
  by (simp add: digit_char_def)

lemma is_digit_digit_char: "d < 10 \<Longrightarrow> is_digit (digit_char d)"
  by (simp add: is_digit_def of_char_digit_char)

lemma dec_digits_digits: "list_all is_digit (dec_digits n)"
  by (induction n rule: dec_digits.induct)
     (subst dec_digits.simps, simp add: is_digit_digit_char)

lemma dec_digits_nonempty: "dec_digits n \<noteq> []"
  by (subst dec_digits.simps) simp

lemma digits_value_snoc: "digits_value (ds @ [c]) = 10 * digits_value ds + (of_char c - 48)"
  by (simp add: digits_value_def)

lemma digits_value_dec_digits: "digits_value (dec_digits n) = n"
proof (induction n rule: dec_digits.induct)
  case (1 n)
  show ?case
  proof (cases "n < 10")
    case True
    then show ?thesis
      by (subst dec_digits.simps) (simp add: digits_value_def of_char_digit_char)
  next
    case False
    with 1 show ?thesis
      by (subst dec_digits.simps) (simp add: digits_value_snoc of_char_digit_char)
  qed
qed

lemma is_digit_not_space: "is_digit c \<Longrightarrow> \<not> is_space c"
  by (auto simp: is_digit_def is_space_def)

lemma is_digit_not_sign: "is_digit c \<Longrightarrow> c \<noteq> CHR ''-'' \<and> c \<noteq> CHR ''+''"
  by (auto simp: is_digit_def)

lemma dropWhile_hd: "xs \<noteq> [] \<Longrightarrow> \<not> P (hd xs) \<Longrightarrow> dropWhile P xs = xs"
  by (cases xs) auto

lemma strip_id: "s \<noteq> [] \<Longrightarrow> \<not> is_space (hd s) \<Longrightarrow> \<not> is_space (last s) \<Longrightarrow> strip s = s"
  by (simp add: strip_def dropWhile_hd hd_rev)

lemma hd_dec_digits: "is_digit (hd (dec_digits n))"
  using dec_digits_digits [of n] dec_digits_nonempty [of n]
  by (cases "dec_digits n") simp_all

lemma last_dec_digits: "is_digit (last (dec_digits n))"
  using dec_digits_digits [of n] dec_digits_nonempty [of n]
  by (cases "dec_digits n" rule: rev_cases) simp_all

lemma strip_dec_digits: "strip (dec_digits n) = dec_digits n"
  by (simp add: strip_id dec_digits_nonempty hd_dec_digits last_dec_digits is_digit_not_space)

lemma py_int_dec_digits: "py_int (dec_digits n) = Inr (int n)"
  using is_digit_not_sign [OF hd_dec_digits [of n]]
  by (simp add: py_int_def strip_dec_digits dec_digits_nonempty dec_digits_digits
      digits_value_dec_digits)

lemma strip_minus_dec_digits: "strip (CHR ''-'' # dec_digits n) = CHR ''-'' # dec_digits n"
proof (rule strip_id)
  show "\<not> is_space (hd (CHR ''-'' # dec_digits n))" by (simp add: is_space_def)
  show "\<not> is_space (last (CHR ''-'' # dec_digits n))"
    by (simp add: dec_digits_nonempty last_dec_digits is_digit_not_space)
qed simp

lemma py_int_fmt_d: "py_int (fmt_d i) = Inr i"
proof (cases "i < 0")
  case True
  then show ?thesis
    by (simp add: fmt_d_def py_int_def strip_minus_dec_digits dec_digits_nonempty
        dec_digits_digits digits_value_dec_digits)
next
  case False
  then show ?thesis by (simp add: fmt_d_def py_int_dec_digits)
qed


lemma and_255: "(x::int) AND 255 = x mod 256"
proof -
  have "x AND mask 8 = x mod 2 ^ 8"
    by (simp only: take_bit_eq_mask [symmetric] take_bit_eq_mod)
  moreover have "mask 8 = (255::int)" by (simp add: mask_eq_exp_minus_1)
  ultimately show ?thesis by simp
qed

lemma mid_byte: "drop_bit 8 ((x::int) AND 65280) = (x div 256) mod 256"
proof -
  have "drop_bit 8 (x AND 65280) = drop_bit 8 x AND drop_bit 8 (65280::int)"
    by (rule drop_bit_and)
  also have "drop_bit 8 (65280::int) = 255" by (simp add: drop_bit_eq_div)
  finally show ?thesis by (simp add: and_255 drop_bit_eq_div)
qed

lemma id_gen_eq: "id_gen s h = Inr \<lparr>switch_id = s, host_id = h, dpid = push_bit 8 s + h\<rparr>"
  by (simp add: id_gen_def JellyfishNodeID_init_def)

lemma fromCompositeId_eq:
  "fromCompositeId d = Inr \<lparr>switch_id = (d div 256) mod 256, host_id = d mod 256, dpid = d\<rparr>"
  by (simp only: fromCompositeId_def JellyfishNodeID_init_def option.case mid_byte and_255)

lemma fromName_host: "fromName (CHR ''h'' # fmt_d n) = Inr \<lparr>switch_id = n, host_id = n, dpid = push_bit 8 n + n\<rparr>"
  by (simp add: fromName_def JellyfishNodeID_init_def py_int_fmt_d)

lemma fromName_switch: "fromName (CHR ''s'' # fmt_d n) = Inr \<lparr>switch_id = n, host_id = 255, dpid = push_bit 8 n + 255\<rparr>"
  by (simp add: fromName_def JellyfishNodeID_init_def py_int_fmt_d)

lemma fromName_name_str_host:
  "fromName (name_str \<lparr>switch_id = n, host_id = n, dpid = d\<rparr>)
     = Inr \<lparr>switch_id = n, host_id = (if n = 255 then 255 else n),
            dpid = push_bit 8 n + n\<rparr>"
  by (simp add: name_str_def fromName_host fromName_switch)

lemma fromName_name_str_switch:
  "fromName (name_str \<lparr>switch_id = n, host_id = 255, dpid = d\<rparr>)
     = Inr \<lparr>switch_id = n, host_id = 255, dpid = push_bit 8 n + 255\<rparr>"
  by (simp add: name_str_def fromName_switch)

text \<open>
  Claim C9. Every identifier the topology builder constructs (\<open>id_gen(num+1, num+1)\<close> for a
  host, \<open>id_gen(k, 255)\<close> for a switch) is read back from its name unchanged, and every
  identifier the class can construct, by indices, by name or by composite id, whose switch
  index and host index both lie in 0..255 is read back from its composite id unchanged.
\<close>

theorem identifier_round_trip:
  "(id_gen (num + 1) (num + 1) = Inr i \<longrightarrow> fromName (name_str i) = Inr i)
   \<and> (id_gen k 255 = Inr j \<longrightarrow> fromName (name_str j) = Inr j)
   \<and> ((id_gen s h = Inr c \<or> fromName nm = Inr c \<or> fromCompositeId d = Inr c)
        \<and> 0 \<le> switch_id c \<and> switch_id c \<le> 255 \<and> 0 \<le> host_id c \<and> host_id c \<le> 255
        \<longrightarrow> fromCompositeId (dpid c) = Inr c)"
proof (intro conjI impI)
  assume "id_gen (num + 1) (num + 1) = Inr i"
  then have "i = \<lparr>switch_id = num + 1, host_id = num + 1, dpid = push_bit 8 (num + 1) + (num + 1)\<rparr>"
    by (simp add: id_gen_eq)
  then show "fromName (name_str i) = Inr i"
    by (simp add: fromName_name_str_host)
next
  assume "id_gen k 255 = Inr j"
  then have "j = \<lparr>switch_id = k, host_id = 255, dpid = push_bit 8 k + 255\<rparr>"
    by (simp add: id_gen_eq)
  then show "fromName (name_str j) = Inr j"
    by (simp add: fromName_name_str_switch)
next
  assume a: "(id_gen s h = Inr c \<or> fromName nm = Inr c \<or> fromCompositeId d = Inr c)
        \<and> 0 \<le> switch_id c \<and> switch_id c \<le> 255 \<and> 0 \<le> host_id c \<and> host_id c \<le> 255"
  then have b: "0 \<le> switch_id c" "switch_id c \<le> 255" "0 \<le> host_id c" "host_id c \<le> 255"
    by simp_all
  from a consider (new) "id_gen s h = Inr c" | (name) "fromName nm = Inr c"
    | (comp) "fromCompositeId d = Inr c" by blast
  then have "dpid c = switch_id c * 256 + host_id c
      \<or> (switch_id c = (dpid c div 256) mod 256 \<and> host_id c = dpid c mod 256)"
  proof cases
    case new
    then show ?thesis by (auto simp: id_gen_eq push_bit_eq_mult)
  next
    case name
    then show ?thesis
      by (auto simp: fromName_def JellyfishNodeID_init_def push_bit_eq_mult
          split: if_splits sum.splits)
  next
    case comp
    then show ?thesis by (auto simp: fromCompositeId_eq)
  qed
  then show "fromCompositeId (dpid c) = Inr c"
  proof
    assume "dpid c = switch_id c * 256 + host_id c"
    with b show ?thesis by (simp add: fromCompositeId_eq)
  next
    assume "switch_id c = (dpid c div 256) mod 256 \<and> host_id c = dpid c mod 256"
    then show ?thesis by (simp add: fromCompositeId_eq)
  qed
qed

theorem identifier_round_trip_witness:
  "fromName (name_str \<lparr>switch_id = 1, host_id = 1, dpid = 257\<rparr>)
     = Inr \<lparr>switch_id = 1, host_id = 1, dpid = 257\<rparr>
   \<and> fromName (name_str \<lparr>switch_id = 1, host_id = 255, dpid = 511\<rparr>)
     = Inr \<lparr>switch_id = 1, host_id = 255, dpid = 511\<rparr>
   \<and> fromCompositeId (dpid \<lparr>switch_id = 1, host_id = 255, dpid = 511\<rparr>)
     = Inr \<lparr>switch_id = 1, host_id = 255, dpid = 511\<rparr>"
  using identifier_round_trip [of 0 "\<lparr>switch_id = 1, host_id = 1, dpid = 257\<rparr>"
      1 "\<lparr>switch_id = 1, host_id = 255, dpid = 511\<rparr>"
      1 255 "\<lparr>switch_id = 1, host_id = 255, dpid = 511\<rparr>" "[]" 0]
  by (simp add: id_gen_eq)

lemma py_int_error: "py_int s = Inl e \<Longrightarrow> e = ValueError"
  by (auto simp: py_int_def Let_def split: if_splits)

lemma strip_digits: "ds \<noteq> [] \<Longrightarrow> list_all is_digit ds \<Longrightarrow> strip ds = ds"
proof (rule strip_id)
  assume a: "ds \<noteq> []" "list_all is_digit ds"
  then have "is_digit (hd ds)" by (cases ds) simp_all
  then show "\<not> is_space (hd ds)" by (rule is_digit_not_space)
  from a have "is_digit (last ds)" by (cases ds rule: rev_cases) simp_all
  then show "\<not> is_space (last ds)" by (rule is_digit_not_space)
qed

lemma py_int_digits:
  assumes "ds \<noteq> []" "list_all is_digit ds"
  shows "py_int ds = Inr (int (digits_value ds))"
proof -
  from assms have "is_digit (hd ds)" by (cases ds) simp_all
  then have "hd ds \<noteq> CHR ''-'' \<and> hd ds \<noteq> CHR ''+''" by (rule is_digit_not_sign)
  with assms show ?thesis by (simp add: py_int_def strip_digits)
qed

text \<open>
  Claim C8, as stated, fails: the remainder \<open>-3\<close> is not a non-negative integer, and
  \<open>JellyfishNodeID(name="s-3")\<close> is built all the same, with switch index \<open>-3\<close>, because
  \<open>int\<close> reads a sign.
\<close>

theorem fromName_negative_index_counterexample:
  "fromName ''s-3'' = Inr \<lparr>switch_id = - 3, host_id = 255, dpid = - 513\<rparr>"
  by (simp add: fromName_def JellyfishNodeID_init_def py_int_def strip_def is_space_def
      is_digit_def digits_value_def)

text \<open>
  Claim C8, amended. Building an identifier from a name raises \<open>IndexError\<close> exactly on
  the empty name, \<open>AttributeError\<close> exactly when the first letter is neither \<open>h\<close> nor
  \<open>s\<close>, \<open>ValueError\<close> exactly when the letter is one of the two and \<open>int\<close> refuses
  the remainder, and no other exception; on \<open>h\<close> or \<open>s\<close> followed by one or more decimal
  digits it succeeds, with the index the digits denote.
\<close>

theorem fromName_failures:
  "(fromName nm = Inl IndexError \<longleftrightarrow> nm = [])
   \<and> (fromName nm = Inl AttributeError \<longleftrightarrow> nm \<noteq> [] \<and> hd nm \<noteq> CHR ''h'' \<and> hd nm \<noteq> CHR ''s'')
   \<and> (fromName nm = Inl ValueError
        \<longleftrightarrow> nm \<noteq> [] \<and> (hd nm = CHR ''h'' \<or> hd nm = CHR ''s'') \<and> py_int (tl nm) = Inl ValueError)
   \<and> fromName nm \<noteq> Inl TypeError \<and> fromName nm \<noteq> Inl ZeroDivisionError
   \<and> (ds \<noteq> [] \<and> list_all is_digit ds \<longrightarrow>
        fromName (CHR ''h'' # ds)
          = Inr \<lparr>switch_id = int (digits_value ds), host_id = int (digits_value ds),
                 dpid = push_bit 8 (int (digits_value ds)) + int (digits_value ds)\<rparr>
        \<and> fromName (CHR ''s'' # ds)
          = Inr \<lparr>switch_id = int (digits_value ds), host_id = 255,
                 dpid = push_bit 8 (int (digits_value ds)) + 255\<rparr>)"
proof -
  have e: "py_int (tl nm) = Inl x \<Longrightarrow> x = ValueError" for x
    by (rule py_int_error)
  have 1: "fromName nm = Inl IndexError \<longleftrightarrow> nm = []"
    using e by (auto simp: fromName_def JellyfishNodeID_init_def split: sum.splits)
  have 2: "fromName nm = Inl AttributeError \<longleftrightarrow> nm \<noteq> [] \<and> hd nm \<noteq> CHR ''h'' \<and> hd nm \<noteq> CHR ''s''"
    using e by (auto simp: fromName_def JellyfishNodeID_init_def split: sum.splits)
  have 3: "fromName nm = Inl ValueError
        \<longleftrightarrow> nm \<noteq> [] \<and> (hd nm = CHR ''h'' \<or> hd nm = CHR ''s'') \<and> py_int (tl nm) = Inl ValueError"
    by (auto simp: fromName_def JellyfishNodeID_init_def split: sum.splits)
  have 4: "fromName nm \<noteq> Inl TypeError" "fromName nm \<noteq> Inl ZeroDivisionError"
    using e by (auto simp: fromName_def JellyfishNodeID_init_def split: sum.splits)
  have 5: "fromName (CHR ''h'' # ds)
          = Inr \<lparr>switch_id = int (digits_value ds), host_id = int (digits_value ds),
                 dpid = push_bit 8 (int (digits_value ds)) + int (digits_value ds)\<rparr>
        \<and> fromName (CHR ''s'' # ds)
          = Inr \<lparr>switch_id = int (digits_value ds), host_id = 255,
                 dpid = push_bit 8 (int (digits_value ds)) + 255\<rparr>"
    if "ds \<noteq> []" "list_all is_digit ds"
    using that by (simp add: fromName_def JellyfishNodeID_init_def py_int_digits)
  from 1 2 3 4 5 show ?thesis by blast
qed

theorem fromName_failures_witness:
  "fromName [] = Inl IndexError \<and> fromName ''x7'' = Inl AttributeError
   \<and> fromName ''h1x'' = Inl ValueError
   \<and> fromName ''h12'' = Inr \<lparr>switch_id = 12, host_id = 12, dpid = 3084\<rparr>
   \<and> fromName ''s12'' = Inr \<lparr>switch_id = 12, host_id = 255, dpid = 3327\<rparr>"
proof -
  have a: "py_int (tl ''h1x'') = Inl ValueError"
    by (simp add: py_int_def strip_def is_space_def is_digit_def)
  have b: "''12'' \<noteq> [] \<and> list_all is_digit ''12''" by (simp add: is_digit_def)
  have c: "int (digits_value ''12'') = 12" by (simp add: digits_value_def)
  show ?thesis
    using fromName_failures [of "[]" "''12''"] fromName_failures [of "''x7''" "''12''"]
      fromName_failures [of "''h1x''" "''12''"] a b c
    by simp
qed

section \<open>Host attachment\<close>

lemma name_str_new:
  "name_str \<lparr>switch_id = s, host_id = h, dpid = d\<rparr> =
     (if h = 255 then CHR ''s'' # fmt_d s else CHR ''h'' # fmt_d h)"
  by (simp add: name_str_def)

lemma def_nopts_switch:
  "def_nopts lay (CHR ''s'' # fmt_d k) =
     Inr \<lparr>layer = lay,
          ip = (if lay = LAYER_HOST
                then Some (ip_str \<lparr>switch_id = k, host_id = 255, dpid = push_bit 8 k + 255\<rparr>)
                else None),
          mac = (if lay = LAYER_HOST
                 then Some (mac_str \<lparr>switch_id = k, host_id = 255, dpid = push_bit 8 k + 255\<rparr>)
                 else None),
          dpid_hex = Some (fmt_0x 16 (push_bit 8 k + 255))\<rparr>"
  by (simp add: def_nopts_def fromName_switch)

lemma def_nopts_host:
  "def_nopts lay (CHR ''h'' # fmt_d k) =
     Inr \<lparr>layer = lay,
          ip = (if lay = LAYER_HOST
                then Some (ip_str \<lparr>switch_id = k, host_id = k, dpid = push_bit 8 k + k\<rparr>)
                else None),
          mac = (if lay = LAYER_HOST
                 then Some (mac_str \<lparr>switch_id = k, host_id = k, dpid = push_bit 8 k + k\<rparr>)
                 else None),
          dpid_hex = Some (fmt_0x 16 (push_bit 8 k + k))\<rparr>"
  by (simp add: def_nopts_def fromName_host)

lemma def_nopts_switch_name:
  "\<exists>opts. def_nopts lay (CHR ''s'' # fmt_d k) = Inr opts"
  by (simp add: def_nopts_switch)

lemma def_nopts_host_name:
  "\<exists>opts. def_nopts lay (CHR ''h'' # fmt_d k) = Inr opts"
  by (simp add: def_nopts_host)

lemma def_nopts_host_id:
  "\<exists>opts. def_nopts lay (name_str \<lparr>switch_id = n, host_id = n, dpid = d\<rparr>) = Inr opts"
  by (cases "n = 255") (simp_all add: name_str_new def_nopts_switch_name def_nopts_host_name)

lemma node_names_addHost: "node_names (addHost nm opts t) = node_names t @ [(nm, False)]"
  by (simp add: node_names_def addHost_def)

lemma node_names_addSwitch: "node_names (addSwitch nm opts t) = node_names t @ [(nm, True)]"
  by (simp add: node_names_def addSwitch_def)

lemma node_names_addLink: "node_names (addLink a b bw t) = node_names t"
  by (simp add: node_names_def addLink_def)

lemma link_pairs_addLink: "link_pairs (addLink a b bw t) = link_pairs t @ [(a, b)]"
  by (simp add: link_pairs_def addLink_def)

lemma node_names_addLinks:
  "node_names (foldl (\<lambda>t x. addLink (f x) (h x) bw t) t xs) = node_names t"
  by (induction xs arbitrary: t) (simp_all add: node_names_def addLink_def)

lemma link_pairs_addHost: "link_pairs (addHost nm opts t) = link_pairs t"
  by (simp add: link_pairs_def addHost_def)

lemma link_pairs_addSwitch: "link_pairs (addSwitch nm opts t) = link_pairs t"
  by (simp add: link_pairs_def addSwitch_def)

lemma link_pairs_addLinks:
  "link_pairs (foldl (\<lambda>t x. addLink (f x) (h x) bw t) t xs) = link_pairs t @ map (\<lambda>x. (f x, h x)) xs"
  by (induction xs arbitrary: t) (simp_all add: link_pairs_def addLink_def)

text \<open>One iteration of the host loop, read through the names.\<close>

lemma addHosts_body_names:
  assumes "hps \<noteq> 0"
  shows "\<exists>st'. addHosts_body bw hps st num = Inr st'
     \<and> switch_num st' = (if num mod hps = 0 then switch_num st + 1 else switch_num st)
     \<and> host_list st' =
         (if num mod hps = 0 then []
          else host_list st @ [name_str \<lparr>switch_id = num + 1, host_id = num + 1, dpid = push_bit 8 (num + 1) + (num + 1)\<rparr>])
     \<and> node_names (topo st') =
         node_names (topo st)
         @ [(name_str \<lparr>switch_id = num + 1, host_id = num + 1, dpid = push_bit 8 (num + 1) + (num + 1)\<rparr>, False)]
         @ (if num mod hps = 0 then [(CHR ''s'' # fmt_d (switch_num st), True)] else [])
     \<and> link_pairs (topo st') =
         link_pairs (topo st)
         @ (if num mod hps = 0
            then map (\<lambda>h. (h, CHR ''s'' # fmt_d (switch_num st)))
                   (host_list st @ [name_str \<lparr>switch_id = num + 1, host_id = num + 1, dpid = push_bit 8 (num + 1) + (num + 1)\<rparr>])
            else [])"
proof -
  let ?hid = "\<lparr>switch_id = num + 1, host_id = num + 1, dpid = push_bit 8 (num + 1) + (num + 1)\<rparr>"
  obtain ho where ho: "def_nopts LAYER_HOST (name_str ?hid) = Inr ho"
    using def_nopts_host_id by blast
  obtain so where so: "def_nopts LAYER_EDGE (CHR ''s'' # fmt_d (switch_num st)) = Inr so"
    using def_nopts_switch_name by blast
  show ?thesis
    using assms ho so
    by (simp add: addHosts_body_def id_gen_eq py_mod_def name_str_new [of _ 255]
        node_names_addHost node_names_addSwitch node_names_addLinks node_names_addLink
        link_pairs_addHost link_pairs_addSwitch link_pairs_addLinks link_pairs_addLink)
qed

lemma addHosts_body_zero: "addHosts_body bw 0 st num = Inl ZeroDivisionError"
proof -
  let ?hid = "\<lparr>switch_id = num + 1, host_id = num + 1, dpid = push_bit 8 (num + 1) + (num + 1)\<rparr>"
  obtain ho where ho: "def_nopts LAYER_HOST (name_str ?hid) = Inr ho"
    using def_nopts_host_id by blast
  show ?thesis using ho by (simp add: addHosts_body_def id_gen_eq py_mod_def)
qed

lemma addHosts_loop_total:
  "hps \<noteq> 0 \<Longrightarrow> \<exists>st'. addHosts_loop bw hps st nums = Inr st'"
proof (induction nums arbitrary: st)
  case Nil
  then show ?case by simp
next
  case (Cons num nums)
  from addHosts_body_names [OF Cons.prems, of bw st num]
  obtain st1 where "addHosts_body bw hps st num = Inr st1" by blast
  with Cons.IH [OF Cons.prems, of st1] show ?case by simp
qed

lemma addHosts_fill_names:
  "\<exists>t'. addHosts_fill t nums = Inr t'
     \<and> node_names t' = node_names t @ map (\<lambda>num. (CHR ''s'' # fmt_d (num + 1), True)) nums
     \<and> link_pairs t' = link_pairs t"
proof (induction nums arbitrary: t)
  case Nil
  then show ?case by simp
next
  case (Cons num nums)
  obtain so where so: "def_nopts LAYER_EDGE (CHR ''s'' # fmt_d (num + 1)) = Inr so"
    using def_nopts_switch_name by blast
  from Cons [of "addSwitch (CHR ''s'' # fmt_d (num + 1)) so t"] so
  show ?case
    by (auto simp: id_gen_eq name_str_new node_names_addSwitch link_pairs_addSwitch)
qed

lemma addHosts_total:
  "hps \<noteq> 0 \<Longrightarrow> \<exists>t'. addHosts bw sw n pps hps t = Inr t'"
  using addHosts_loop_total [of hps bw "\<lparr>switch_num = 1, host_list = [], topo = t\<rparr>" "py_range 0 n"]
    addHosts_fill_names
  by (fastforce simp: addHosts_def py_div_def)

lemma addHosts_zero: "addHosts bw sw n pps 0 t = Inl ZeroDivisionError"
  by (cases "py_range 0 n") (simp_all add: addHosts_def py_div_def addHosts_body_zero)



lemma ceil_div: 
  assumes "0 < (h::nat)"
  shows "(n + h - 1) div h = n div h + (if n mod h = 0 then 0 else 1)"
proof -
  define q where "q = n div h"
  define r where "r = n mod h"
  have n: "n = r + q * h" by (simp add: q_def r_def)
  have r: "r < h" using assms by (simp add: r_def)
  have h: "h \<noteq> 0" using assms by simp
  show ?thesis
  proof (cases "r = 0")
    case True
    have "n + h - 1 = (h - 1) + q * h" using assms n True by simp
    then have "(n + h - 1) div h = q + (h - 1) div h"
      using div_mult_self1 [OF h, of "h - 1" q] by simp
    moreover have "(h - 1) div h = 0" using assms by simp
    ultimately show ?thesis using True by (simp add: q_def r_def)
  next
    case False
    have "n + h - 1 = (r - 1) + (q + 1) * h" using assms n False by simp
    then have "(n + h - 1) div h = (q + 1) + (r - 1) div h"
      using div_mult_self1 [OF h, of "r - 1" "q + 1"] by simp
    moreover have "(r - 1) div h = 0" using r by simp
    ultimately show ?thesis using False by (simp add: q_def r_def)
  qed
qed

lemma ceil_step:
  assumes "0 < (h::nat)"
  shows "(Suc n + h - 1) div h = (n + h - 1) div h + (if n mod h = 0 then 1 else 0)"
proof -
  have h: "h \<noteq> 0" using assms by simp
  have "(Suc n + h - 1) div h = (n + h) div h" by simp
  also have "\<dots> = n div h + 1" by (rule div_add_self2 [OF h])
  finally show ?thesis using ceil_div [OF assms, of n] by simp
qed


lemma addHosts_loop_snoc:
  "addHosts_loop bw hps st (nums @ [num]) =
     (case addHosts_loop bw hps st nums of
        Inl e \<Rightarrow> Inl e
      | Inr st' \<Rightarrow> addHosts_body bw hps st' num)"
  by (induction nums arbitrary: st) (simp_all split: sum.splits)

lemma py_range_Suc: "py_range 0 (int (Suc n)) = py_range 0 (int n) @ [int n]"
  by (simp add: py_range_def del: of_nat_Suc)

lemma py_range_Cons: "a < b \<Longrightarrow> py_range a b = a # py_range (a + 1) b"
proof -
  assume "a < b"
  then obtain m where m: "nat (b - a) = Suc m" "nat (b - (a + 1)) = m"
    by (cases "nat (b - a)") auto
  have "map (\<lambda>k. a + int k) [0..<Suc m] = a # map (\<lambda>k. a + 1 + int k) [0..<m]"
    by (simp add: upt_conv_Cons map_Suc_upt [symmetric] del: upt_Suc)
  with m show ?thesis by (simp add: py_range_def)
qed

text \<open>After the first \<open>n\<close> hosts the host loop has allocated the switches
  \<open>s1 .. s\<lceil>n / hosts_per_switch\<rceil>\<close>, in this order.\<close>

lemma addHosts_loop_switches:
  assumes "0 < h"
  shows "\<exists>st added.
           addHosts_loop bw (int h) \<lparr>switch_num = 1, host_list = [], topo = t0\<rparr>
             (py_range 0 (int n)) = Inr st
         \<and> switch_num st = 1 + int ((n + h - 1) div h)
         \<and> node_names (topo st) = node_names t0 @ added
         \<and> filter snd added =
             map (\<lambda>k. (CHR ''s'' # fmt_d (int k), True)) [1..<Suc ((n + h - 1) div h)]"
proof (induction n)
  case 0
  from assms have "(h - 1) div h = 0" by simp
  then show ?case by (simp add: py_range_def)
next
  case (Suc n)
  then obtain st added where st:
    "addHosts_loop bw (int h) \<lparr>switch_num = 1, host_list = [], topo = t0\<rparr>
       (py_range 0 (int n)) = Inr st"
    "switch_num st = 1 + int ((n + h - 1) div h)"
    "node_names (topo st) = node_names t0 @ added"
    "filter snd added = map (\<lambda>k. (CHR ''s'' # fmt_d (int k), True)) [1..<Suc ((n + h - 1) div h)]"
    by blast
  from assms have "int h \<noteq> 0" by simp
  from addHosts_body_names [OF this, of bw st "int n"]
  obtain st' where st':
    "addHosts_body bw (int h) st (int n) = Inr st'"
    "switch_num st' = (if int n mod int h = 0 then switch_num st + 1 else switch_num st)"
    "node_names (topo st') =
         node_names (topo st)
         @ [(name_str \<lparr>switch_id = int n + 1, host_id = int n + 1,
                        dpid = push_bit 8 (int n + 1) + (int n + 1)\<rparr>, False)]
         @ (if int n mod int h = 0 then [(CHR ''s'' # fmt_d (switch_num st), True)] else [])"
    by blast
  have m: "int n mod int h = 0 \<longleftrightarrow> n mod h = 0"
    by (simp add: zmod_int [symmetric])
  let ?c = "(n + h - 1) div h"
  have c: "(Suc n + h - 1) div h = ?c + (if n mod h = 0 then 1 else 0)"
    by (rule ceil_step [OF assms])
  let ?added = "added
         @ [(name_str \<lparr>switch_id = int n + 1, host_id = int n + 1,
                        dpid = push_bit 8 (int n + 1) + (int n + 1)\<rparr>, False)]
         @ (if int n mod int h = 0 then [(CHR ''s'' # fmt_d (switch_num st), True)] else [])"
  have 1: "addHosts_loop bw (int h) \<lparr>switch_num = 1, host_list = [], topo = t0\<rparr>
             (py_range 0 (int (Suc n))) = Inr st'"
    using st(1) st'(1) by (simp only: py_range_Suc addHosts_loop_snoc sum.case)
  have 2: "switch_num st' = 1 + int ((Suc n + h - 1) div h)"
    using st'(2) st(2) m c by simp
  have 3: "node_names (topo st') = node_names t0 @ ?added"
    using st'(3) st(3) by simp
  have 4: "filter snd ?added =
      map (\<lambda>k. (CHR ''s'' # fmt_d (int k), True)) [1..<Suc ((Suc n + h - 1) div h)]"
  proof (cases "n mod h = 0")
    case True
    then have "(Suc n + h - 1) div h = Suc ?c" using c by simp
    moreover have "switch_num st = int (Suc ?c)" using st(2) by simp
    ultimately show ?thesis using True st(4) m by (simp del: of_nat_Suc)
  next
    case False
    then have "(Suc n + h - 1) div h = ?c" using c by simp
    then show ?thesis using False st(4) m by simp
  qed
  from 1 2 3 4 show ?case by blast
qed

text \<open>
  Claim C10. Let the host count be non-negative and \<open>hosts_per_switch\<close> positive. If
  \<open>hosts_per_switch\<close> does not divide the host count and the switch count exceeds
  \<open>nodes div hosts_per_switch\<close>, then host attachment succeeds, the switch name
  \<open>s<nodes div hosts_per_switch + 1>\<close> is among the nodes the host loop registered as
  switches, and the first switch the second loop registers has this very name: the switch
  names \<open>addHosts\<close> registers are not distinct.
\<close>

theorem filler_reuses_switch_name:
  assumes "0 < hosts_per_switch" and "0 \<le> nodes"
    and "\<not> hosts_per_switch dvd nodes" and "nodes div hosts_per_switch < switches"
  shows "\<exists>st t added.
           addHosts_loop bw hosts_per_switch \<lparr>switch_num = 1, host_list = [], topo = t0\<rparr>
             (py_range 0 nodes) = Inr st
         \<and> node_names (topo st) = node_names t0 @ added
         \<and> (CHR ''s'' # fmt_d (nodes div hosts_per_switch + 1), True) \<in> set added
         \<and> addHosts bw switches nodes ports_per_switch hosts_per_switch t0 = Inr t
         \<and> node_names t =
             node_names (topo st)
             @ (CHR ''s'' # fmt_d (nodes div hosts_per_switch + 1), True)
               # map (\<lambda>num. (CHR ''s'' # fmt_d (num + 1), True))
                   (py_range (nodes div hosts_per_switch + 1) switches)"
proof -
  define h where "h = nat hosts_per_switch"
  define n where "n = nat nodes"
  have h: "0 < h" "hosts_per_switch = int h" using assms(1) by (simp_all add: h_def)
  have n: "nodes = int n" using assms(2) by (simp add: n_def)
  from addHosts_loop_switches [OF h(1), of bw t0 n]
  obtain st added where st:
    "addHosts_loop bw (int h) \<lparr>switch_num = 1, host_list = [], topo = t0\<rparr>
       (py_range 0 (int n)) = Inr st"
    "node_names (topo st) = node_names t0 @ added"
    "filter snd added = map (\<lambda>k. (CHR ''s'' # fmt_d (int k), True)) [1..<Suc ((n + h - 1) div h)]"
    by blast
  have nd: "n mod h \<noteq> 0"
    using assms(3) h(2) n by (simp add: dvd_eq_mod_eq_0 zmod_int [symmetric])
  have q: "nodes div hosts_per_switch = int (n div h)"
    using h(2) n by (simp add: zdiv_int)
  have c: "(n + h - 1) div h = n div h + 1"
    using ceil_div [OF h(1), of n] nd by simp
  have "n div h + 1 \<in> set [1..<Suc ((n + h - 1) div h)]" using c by simp
  then have "(CHR ''s'' # fmt_d (int (n div h + 1)), True) \<in> set (filter snd added)"
    unfolding st(3) set_map by (rule image_eqI [rotated]) simp
  then have mem: "(CHR ''s'' # fmt_d (nodes div hosts_per_switch + 1), True) \<in> set added"
    using q by (simp add: add.commute)
  from addHosts_fill_names [of "topo st" "py_range (nodes div hosts_per_switch) switches"]
  obtain t where t:
    "addHosts_fill (topo st) (py_range (nodes div hosts_per_switch) switches) = Inr t"
    "node_names t = node_names (topo st)
       @ map (\<lambda>num. (CHR ''s'' # fmt_d (num + 1), True))
           (py_range (nodes div hosts_per_switch) switches)"
    by blast
  have ah: "addHosts bw switches nodes ports_per_switch hosts_per_switch t0 = Inr t"
    using st(1) t(1) h n assms(1) by (simp add: addHosts_def py_div_def)
  have "node_names t =
             node_names (topo st)
             @ (CHR ''s'' # fmt_d (nodes div hosts_per_switch + 1), True)
               # map (\<lambda>num. (CHR ''s'' # fmt_d (num + 1), True))
                   (py_range (nodes div hosts_per_switch + 1) switches)"
    using t(2) by (simp add: py_range_Cons [OF assms(4)])
  with st(1,2) mem ah h(2) n show ?thesis by blast
qed


lemma fmt_d_small:
  "fmt_d 1 = ''1''" "fmt_d 2 = ''2''" "fmt_d 3 = ''3''" "fmt_d 4 = ''4''"
  by code_simp+

theorem filler_reuses_switch_name_witness:
  "\<exists>st t added.
     addHosts_loop 40 2
       \<lparr>switch_num = 1, host_list = [],
          topo = \<lparr>t_nodes = [], t_links = [], node_specs = [], edge_specs = []\<rparr>\<rparr>
       (py_range 0 3) = Inr st
     \<and> node_names (topo st) = added
     \<and> (''s2'', True) \<in> set added
     \<and> addHosts 40 3 3 4 2 \<lparr>t_nodes = [], t_links = [], node_specs = [], edge_specs = []\<rparr> = Inr t
     \<and> node_names t = node_names (topo st) @ [(''s2'', True), (''s3'', True)]"
proof -
  have r: "py_range 2 3 = [2]" by (simp add: py_range_def)
  show ?thesis
    using filler_reuses_switch_name [where hosts_per_switch = 2 and nodes = 3 and switches = 3
        and bw = 40 and ports_per_switch = 4
        and ?t0.0 = "\<lparr>t_nodes = [], t_links = [], node_specs = [], edge_specs = []\<rparr>"]
    by (simp add: fmt_d_small r node_names_def)
qed

text \<open>Evaluating \<open>addHosts\<close> on given numbers: first the calls, then the decimal names.\<close>

lemmas addHosts_eval = addHosts_def addHosts_body_def py_range_def py_mod_def py_div_def
  id_gen_eq name_str_new def_nopts_switch def_nopts_host addHost_def addSwitch_def addLink_def
  upt_rec node_names_def link_pairs_def

text \<open>
  Claim C4, on the code: with 4 hosts and \<open>hosts_per_switch = 2\<close> the host loop links
  \<open>h1\<close> alone to \<open>s1\<close> and \<open>h2\<close>, \<open>h3\<close> to \<open>s2\<close>; \<open>h4\<close> is registered and never linked,
  because the hosts collected after the last index divisible by \<open>hosts_per_switch\<close> are
  dropped when the loop ends.
\<close>

theorem addHosts_unlinked_host:
  "(case addHosts 40 2 4 4 2 \<lparr>t_nodes = [], t_links = [], node_specs = [], edge_specs = []\<rparr> of
      Inl e \<Rightarrow> False
    | Inr t \<Rightarrow>
        node_names t = [(''h1'', False), (''s1'', True), (''h2'', False), (''h3'', False),
                        (''s2'', True), (''h4'', False)]
        \<and> link_pairs t = [(''h1'', ''s1''), (''h2'', ''s2''), (''h3'', ''s2'')])"
  by (simp add: addHosts_eval) (simp add: fmt_d_small)

section \<open>The two loops of \<open>create_topology\<close>\<close>

lemma random_choice_nonempty:
  "xs \<noteq> [] \<Longrightarrow> \<exists>x g'. random_choice g xs = Inr (x, g') \<and> x \<in> set xs"
  by (simp add: random_choice_def)

lemma phase1_step_ok:
  assumes "switch_list st \<noteq> []"
  shows "\<exists>st'. phase1_step pps st = Inr st'"
proof -
  from random_choice_nonempty [OF assms] obtain a g1 where
    a: "random_choice (gen st) (switch_list st) = Inr (a, g1)" by blast
  from random_choice_nonempty [OF assms] obtain b g2 where
    b: "random_choice g1 (switch_list st) = Inr (b, g2)" by blast
  show ?thesis by (simp add: phase1_step_def a b Let_def)
qed

text \<open>The first loop raises nothing, and when it ends at most one candidate is left or
  every two candidates are linked.\<close>

lemma phase1_result:
  assumes "phase1 pps st = Some r"
  shows "\<exists>st'. r = Inr st'
           \<and> \<not> (1 < length (switch_list st')
                \<and> not_fully_connected (switch_list st') (added_links st'))"
proof (rule phase1.raw_induct
    [where P = "\<lambda>pps st r. \<exists>st'. r = Inr st'
           \<and> \<not> (1 < length (switch_list st')
                \<and> not_fully_connected (switch_list st') (added_links st'))", OF _ assms])
  fix f :: "int \<Rightarrow> 'a build_state \<Rightarrow> (py_error + 'a build_state) option"
    and pps st r
  assume IH: "\<And>pps st r. f pps st = Some r \<Longrightarrow> \<exists>st'. r = Inr st'
           \<and> \<not> (1 < length (switch_list st')
                \<and> not_fully_connected (switch_list st') (added_links st'))"
    and eq: "(if 1 < length (switch_list st)
                \<and> not_fully_connected (switch_list st) (added_links st)
             then case phase1_step pps st of Inl e \<Rightarrow> Some (Inl e) | Inr st' \<Rightarrow> f pps st'
             else Some (Inr st)) = Some r"
  show "\<exists>st'. r = Inr st'
           \<and> \<not> (1 < length (switch_list st')
                \<and> not_fully_connected (switch_list st') (added_links st'))"
  proof (cases "1 < length (switch_list st)
      \<and> not_fully_connected (switch_list st) (added_links st)")
    case True
    then have "switch_list st \<noteq> []" by auto
    from phase1_step_ok [OF this] obtain st1 where "phase1_step pps st = Inr st1" by blast
    with True eq have "f pps st1 = Some r" by simp
    then show ?thesis by (rule IH)
  next
    case False
    with eq show ?thesis by auto
  qed
qed

lemma not_fully_connected_no_links:
  "1 < length sl \<Longrightarrow> not_fully_connected sl []"
  by (cases sl) (auto simp: neq_Nil_conv)

lemma switch_is_fully_connected_single:
  "set sl \<subseteq> {s} \<Longrightarrow> switch_is_fully_connected s links sl"
  by (induction sl) auto

text \<open>The second loop draws from \<open>added_links\<close>; the draw cannot fail when at most one
  candidate is left (no switch gets that far) or a link exists.\<close>

lemma phase2_visit_ok:
  assumes "length (switch_list st) \<le> 1 \<or> added_links st \<noteq> []"
    and "s \<in> set (switch_list st)"
  shows "\<exists>c' st'. phase2_visit pps s (c, st) = Inr (c', st')
           \<and> switch_list st' = switch_list st
           \<and> (length (switch_list st') \<le> 1 \<or> added_links st' \<noteq> [])"
proof (cases "switch_is_fully_connected s (added_links st) (switch_list st)")
  case True
  with assms(1) show ?thesis by (simp add: phase2_visit_def)
next
  case False
  have "added_links st \<noteq> []"
  proof (rule ccontr)
    assume "\<not> added_links st \<noteq> []"
    with assms(1) have "length (switch_list st) \<le> 1" by simp
    with assms(2) have "set (switch_list st) \<subseteq> {s}"
      by (cases "switch_list st") auto
    then have "switch_is_fully_connected s (added_links st) (switch_list st)"
      by (rule switch_is_fully_connected_single)
    with False show False by simp
  qed
  from random_choice_nonempty [OF this] obtain l g' where
    "random_choice (gen st) (added_links st) = Inr (l, g')" by blast
  with False \<open>added_links st \<noteq> []\<close> show ?thesis
    by (auto simp: phase2_visit_def)
qed

lemma phase2_pass_ok:
  "length (switch_list st) \<le> 1 \<or> added_links st \<noteq> [] \<Longrightarrow>
   set xs \<subseteq> set (switch_list st) \<Longrightarrow>
   \<exists>c' st'. phase2_pass pps xs (c, st) = Inr (c', st')
     \<and> switch_list st' = switch_list st
     \<and> (length (switch_list st') \<le> 1 \<or> added_links st' \<noteq> [])"
proof (induction xs arbitrary: c st)
  case Nil
  then show ?case by simp
next
  case (Cons s xs)
  from Cons.prems have "s \<in> set (switch_list st)" by simp
  from phase2_visit_ok [OF Cons.prems(1) this, of pps c]
  obtain c1 st1 where v: "phase2_visit pps s (c, st) = Inr (c1, st1)"
    "switch_list st1 = switch_list st"
    "length (switch_list st1) \<le> 1 \<or> added_links st1 \<noteq> []"
    by blast
  from Cons.prems(2) v(2) have "set xs \<subseteq> set (switch_list st1)" by simp
  from Cons.IH [OF v(3) this, of c1] v(1,2) show ?case by auto
qed

lemma phase2_no_error:
  assumes "phase2 pps st = Some r"
  shows "length (switch_list st) \<le> 1 \<or> added_links st \<noteq> [] \<longrightarrow> (\<exists>st'. r = Inr st')"
proof (rule phase2.raw_induct
    [where P = "\<lambda>pps st r. length (switch_list st) \<le> 1 \<or> added_links st \<noteq> []
                  \<longrightarrow> (\<exists>st'. r = Inr st')", OF _ assms])
  fix f :: "int \<Rightarrow> 'a build_state \<Rightarrow> (py_error + 'a build_state) option"
    and pps st r
  assume IH: "\<And>pps st r. f pps st = Some r \<Longrightarrow>
      length (switch_list st) \<le> 1 \<or> added_links st \<noteq> [] \<longrightarrow> (\<exists>st'. r = Inr st')"
    and eq: "(case phase2_pass pps (switch_list st) (True, st) of
                Inl e \<Rightarrow> Some (Inl e)
              | Inr cs \<Rightarrow> if fst cs then Some (Inr (snd cs)) else f pps (snd cs)) = Some r"
  show "length (switch_list st) \<le> 1 \<or> added_links st \<noteq> [] \<longrightarrow> (\<exists>st'. r = Inr st')"
  proof
    assume inv: "length (switch_list st) \<le> 1 \<or> added_links st \<noteq> []"
    from phase2_pass_ok [OF inv subset_refl, of pps True]
    obtain c1 st1 where p: "phase2_pass pps (switch_list st) (True, st) = Inr (c1, st1)"
      "length (switch_list st1) \<le> 1 \<or> added_links st1 \<noteq> []"
      by blast
    show "\<exists>st'. r = Inr st'"
    proof (cases c1)
      case True
      with eq p(1) show ?thesis by auto
    next
      case False
      with eq p(1) have "f pps st1 = Some r" by simp
      from IH [OF this] p(2) show ?thesis by blast
    qed
  qed
qed

lemma build_links_no_error:
  assumes "build_links pps st = Some r"
  shows "\<exists>st'. r = Inr st'"
proof -
  from assms obtain r1 where r1: "phase1 pps st = Some r1"
    by (cases "phase1 pps st") (simp_all add: build_links_def)
  from phase1_result [OF r1] obtain st1 where st1: "r1 = Inr st1"
    "\<not> (1 < length (switch_list st1)
        \<and> not_fully_connected (switch_list st1) (added_links st1))"
    by blast
  from st1(2) have inv: "length (switch_list st1) \<le> 1 \<or> added_links st1 \<noteq> []"
    using not_fully_connected_no_links [of "switch_list st1"] by (cases "added_links st1 = []") auto
  from assms r1 st1(1) have "phase2 pps st1 = Some r" by (simp add: build_links_def)
  from phase2_no_error [OF this] inv show ?thesis by blast
qed



text \<open>Running the loops on given candidates and a replayed random source: the recursion
  equations, restricted to states that are written out.\<close>

lemma phase1_rec:
  "phase1 pps \<lparr>switch_list = sl, added_links = al, gen = g\<rparr> =
     (if 1 < length sl \<and> not_fully_connected sl al
      then (case phase1_step pps \<lparr>switch_list = sl, added_links = al, gen = g\<rparr> of
              Inl e \<Rightarrow> Some (Inl e)
            | Inr st' \<Rightarrow> phase1 pps st')
      else Some (Inr \<lparr>switch_list = sl, added_links = al, gen = g\<rparr>))"
  by (subst phase1.simps) simp

lemma phase2_rec:
  "phase2 pps \<lparr>switch_list = sl, added_links = al, gen = g\<rparr> =
     (case phase2_pass pps sl (True, \<lparr>switch_list = sl, added_links = al, gen = g\<rparr>) of
        Inl e \<Rightarrow> Some (Inl e)
      | Inr cs \<Rightarrow> (if fst cs then Some (Inr (snd cs)) else phase2 pps (snd cs)))"
  by (subst phase2.simps) simp

lemma random_choice_replay:
  "random_choice (replay (d # ds)) xs =
     (if xs = [] then Inl IndexError else Inr (xs ! (d mod length xs), replay ds))"
  by (auto simp: random_choice_def replay_def fun_eq_iff)

lemma choice_2: "random_choice (replay (d # ds)) [a, b] = Inr ([a, b] ! (d mod 2), replay ds)"
  by (simp add: random_choice_replay numeral_2_eq_2)

lemma choice_3:
  "random_choice (replay (d # ds)) [a, b, c] = Inr ([a, b, c] ! (d mod 3), replay ds)"
  by (simp add: random_choice_replay)

lemma choice_4:
  "random_choice (replay (d # ds)) [a, b, c, e] = Inr ([a, b, c, e] ! (d mod 4), replay ds)"
  by (simp add: random_choice_replay)

lemma choice_5:
  "random_choice (replay (d # ds)) [a, b, c, e, f] =
     Inr ([a, b, c, e, f] ! (d mod 5), replay ds)"
  by (simp add: random_choice_replay)

lemmas build_eval = build_links_def phase1_rec phase2_rec phase1_step_def
  phase2_visit_def choice_2 choice_3 choice_4 choice_5 count_links_with_switch_def

section \<open>The constructor as a whole\<close>

lemma isSwitch_names:
  "isSwitch t n =
     (case find (\<lambda>p. fst p = n) (rev (node_names t)) of Some p \<Rightarrow> snd p | None \<Rightarrow> False)"
proof -
  have "find (\<lambda>p. fst p = n) (map (\<lambda>e. (fst e, fst (snd e))) xs)
          = map_option (\<lambda>e. (fst e, fst (snd e))) (find (\<lambda>e. fst e = n) xs)" for xs :: "(string \<times> bool \<times> nopts) list"
    by (induction xs) simp_all
  then show ?thesis
    by (simp add: isSwitch_def node_names_def rev_map split: option.splits)
qed

lemma topo_switches_names:
  "topo_switches srt t = filter (isSwitch t) (srt (remdups (map fst (node_names t))))"
  by (simp add: topo_switches_def node_names_def comp_def)

lemma create_topology_run:
  assumes "addHosts bw sw n pps hps t0 = Inr t1"
    and "topo_switches srt t1 = sl"
    and "build_links pps \<lparr>switch_list = sl, added_links = [], gen = g\<rparr> = Some (Inr st)"
  shows "\<exists>t. create_topology srt bw sw n pps hps t0 g = Some (Inr (t, gen st))
           \<and> node_names t = node_names t1
           \<and> link_pairs t = link_pairs t1 @ added_links st"
  using assms
  by (simp add: create_topology_def node_names_addLinks
      link_pairs_addLinks [where f = fst and h = snd, simplified])

text \<open>
  Claim C6, as stated, fails: with \<open>ports_per_switch = hosts_per_switch = 1\<close>, one switch
  and one host, nothing is rejected; the constructor returns the topology of the host and
  its switch.
\<close>

theorem no_feasibility_check_counterexample:
  "(case JellyfishTopo_init (\<lambda>seed. replay []) (\<lambda>xs. xs) (replay []) 0 1 1 1 1 40 of
      Some (Inr (t, g)) \<Rightarrow>
        node_names t = [(''h1'', False), (''s1'', True)] \<and> link_pairs t = [(''h1'', ''s1'')]
    | _ \<Rightarrow> False)"
proof -
  let ?t0 = "\<lparr>t_nodes = [], t_links = [],
      node_specs = [\<lparr>up_total = 0, down_total = 1, up_speed = 40, down_speed = Some 40,
                     type_str = Some ''edge''\<rparr>,
                    \<lparr>up_total = 1, down_total = 0, up_speed = 40, down_speed = None,
                     type_str = Some ''host''\<rparr>],
      edge_specs = [40, 40, 40]\<rparr>"
  have "(case addHosts 40 1 1 1 1 ?t0 of
      Inl e \<Rightarrow> False
    | Inr t \<Rightarrow> node_names t = [(''h1'', False), (''s1'', True)]
        \<and> link_pairs t = [(''h1'', ''s1'')])"
    by (simp add: addHosts_eval) (simp add: fmt_d_small)
  then obtain t1 where t1: "addHosts 40 1 1 1 1 ?t0 = Inr t1"
    "node_names t1 = [(''h1'', False), (''s1'', True)]" "link_pairs t1 = [(''h1'', ''s1'')]"
    by (auto split: sum.splits)
  have sl: "topo_switches (\<lambda>xs. xs) t1 = [''s1'']"
    by (simp add: topo_switches_names isSwitch_names t1)
  have b: "build_links 1 \<lparr>switch_list = [''s1''], added_links = [], gen = replay []\<rparr>
      = Some (Inr \<lparr>switch_list = [''s1''], added_links = [], gen = replay []\<rparr>)"
    by (simp add: build_eval)
  from create_topology_run [OF t1(1) sl b] t1(2,3)
  show ?thesis by (auto simp: JellyfishTopo_init_def)
qed

text \<open>
  Claim C6, amended. The constructor has no feasibility check. The one parameter it
  rejects is \<open>hosts_per_switch = 0\<close>, with \<open>ZeroDivisionError\<close>, raised in host attachment
  before anything is drawn; for every other parameter set, \<open>ports_per_switch -
  hosts_per_switch \<le> 0\<close> included, construction starts and raises nothing.
\<close>

theorem constructor_errors:
  "JellyfishTopo_init random_seed srt g0 seed switches nodes ports_per_switch hosts_per_switch bw
     = Some (Inl e)
   \<longleftrightarrow> hosts_per_switch = 0 \<and> e = ZeroDivisionError"
proof (cases "hosts_per_switch = 0")
  case True
  then show ?thesis
    by (auto simp: JellyfishTopo_init_def create_topology_def addHosts_zero)
next
  case False
  let ?t0 = "\<lparr>t_nodes = [], t_links = [],
      node_specs = [\<lparr>up_total = ports_per_switch - hosts_per_switch,
                     down_total = hosts_per_switch, up_speed = bw, down_speed = Some bw,
                     type_str = Some ''edge''\<rparr>,
                    \<lparr>up_total = 1, down_total = 0, up_speed = bw, down_speed = None,
                     type_str = Some ''host''\<rparr>],
      edge_specs = [bw, bw, bw]\<rparr>"
  from addHosts_total [OF False] obtain t1 where
    t1: "addHosts bw switches nodes ports_per_switch hosts_per_switch ?t0 = Inr t1" by blast
  let ?b = "build_links ports_per_switch
      \<lparr>switch_list = topo_switches srt t1, added_links = [], gen = random_seed seed\<rparr>"
  have "JellyfishTopo_init random_seed srt g0 seed switches nodes ports_per_switch
          hosts_per_switch bw \<noteq> Some (Inl e)"
  proof (cases ?b)
    case None
    with t1 show ?thesis by (simp add: JellyfishTopo_init_def create_topology_def)
  next
    case (Some r)
    from build_links_no_error [OF this] obtain st where "r = Inr st" by blast
    with Some t1 show ?thesis by (simp add: JellyfishTopo_init_def create_topology_def)
  qed
  with False show ?thesis by simp
qed

theorem constructor_errors_witness:
  "JellyfishTopo_init (\<lambda>seed. replay []) (\<lambda>xs. xs) (replay []) 0 2 2 4 0 40
     = Some (Inl ZeroDivisionError)"
  using constructor_errors [of "\<lambda>seed. replay []" "\<lambda>xs. xs" "replay []" 0 2 2 4 0 40
      ZeroDivisionError]
  by simp

text \<open>
  Claim C7. The constructor reseeds the module-wide random source before anything else,
  so its result, the topology and the state the source is left in, or the absence of a
  result when a loop never ends, is a function of the seed and the parameters alone: two
  calls with the same arguments give the same result whatever state the source was in.
\<close>

theorem construction_deterministic:
  "JellyfishTopo_init random_seed srt g0 seed switches nodes ports_per_switch hosts_per_switch bw
     = JellyfishTopo_init random_seed srt g0' seed switches nodes ports_per_switch
         hosts_per_switch bw"
  by (simp add: JellyfishTopo_init_def)

lemma create_topology_diverges:
  assumes "addHosts bw sw n pps hps t0 = Inr t1"
    and "topo_switches srt t1 = sl"
    and "build_links pps \<lparr>switch_list = sl, added_links = [], gen = g\<rparr> = None"
  shows "create_topology srt bw sw n pps hps t0 g = None"
  using assms by (simp add: create_topology_def)

text \<open>A run of the constructor, put together from host attachment, the candidate list and
  a run of the two loops.\<close>

lemma JellyfishTopo_init_run:
  assumes "\<And>ns es. (case addHosts bw sw n pps hps
                          \<lparr>t_nodes = [], t_links = [], node_specs = ns, edge_specs = es\<rparr> of
                       Inl e \<Rightarrow> False
                     | Inr t \<Rightarrow> node_names t = nn \<and> link_pairs t = hl)"
    and "filter (\<lambda>n. case find (\<lambda>p. fst p = n) (rev nn) of Some p \<Rightarrow> snd p | None \<Rightarrow> False)
           (srt (remdups (map fst nn))) = sl"
    and "build_links pps \<lparr>switch_list = sl, added_links = [], gen = rs seed\<rparr> = Some (Inr st)"
  shows "\<exists>t. JellyfishTopo_init rs srt g0 seed sw n pps hps bw = Some (Inr (t, gen st))
           \<and> node_names t = nn \<and> link_pairs t = hl @ added_links st"
proof -
  let ?t0 = "\<lparr>t_nodes = [], t_links = [],
      node_specs = [\<lparr>up_total = pps - hps, down_total = hps, up_speed = bw,
                     down_speed = Some bw, type_str = Some ''edge''\<rparr>,
                    \<lparr>up_total = 1, down_total = 0, up_speed = bw, down_speed = None,
                     type_str = Some ''host''\<rparr>],
      edge_specs = [bw, bw, bw]\<rparr>"
  from assms(1) [of "node_specs ?t0" "edge_specs ?t0"]
  obtain t1 where t1: "addHosts bw sw n pps hps ?t0 = Inr t1"
    "node_names t1 = nn" "link_pairs t1 = hl"
    by (auto split: sum.splits)
  have sl: "topo_switches srt t1 = sl"
    using assms(2) t1(2) by (simp add: topo_switches_names isSwitch_names [abs_def])
  from create_topology_run [OF t1(1) sl assms(3)] t1(2,3)
  show ?thesis by (auto simp: JellyfishTopo_init_def)
qed

lemma JellyfishTopo_init_diverges:
  assumes "\<And>ns es. (case addHosts bw sw n pps hps
                          \<lparr>t_nodes = [], t_links = [], node_specs = ns, edge_specs = es\<rparr> of
                       Inl e \<Rightarrow> False
                     | Inr t \<Rightarrow> node_names t = nn \<and> link_pairs t = hl)"
    and "filter (\<lambda>n. case find (\<lambda>p. fst p = n) (rev nn) of Some p \<Rightarrow> snd p | None \<Rightarrow> False)
           (srt (remdups (map fst nn))) = sl"
    and "build_links pps \<lparr>switch_list = sl, added_links = [], gen = rs seed\<rparr> = None"
  shows "JellyfishTopo_init rs srt g0 seed sw n pps hps bw = None"
proof -
  let ?t0 = "\<lparr>t_nodes = [], t_links = [],
      node_specs = [\<lparr>up_total = pps - hps, down_total = hps, up_speed = bw,
                     down_speed = Some bw, type_str = Some ''edge''\<rparr>,
                    \<lparr>up_total = 1, down_total = 0, up_speed = bw, down_speed = None,
                     type_str = Some ''host''\<rparr>],
      edge_specs = [bw, bw, bw]\<rparr>"
  from assms(1) [of "node_specs ?t0" "edge_specs ?t0"]
  obtain t1 where t1: "addHosts bw sw n pps hps ?t0 = Inr t1"
    "node_names t1 = nn" "link_pairs t1 = hl"
    by (auto split: sum.splits)
  have sl: "topo_switches srt t1 = sl"
    using assms(2) t1(2) by (simp add: topo_switches_names isSwitch_names [abs_def])
  from create_topology_diverges [OF t1(1) sl assms(3)]
  show ?thesis by (simp add: JellyfishTopo_init_def)
qed

text \<open>Host attachment with one host per switch and three hosts, and with no host and four
  switches.\<close>

lemma addHosts_3_3:
  "(case addHosts 40 3 3 pps 1 \<lparr>t_nodes = [], t_links = [], node_specs = ns, edge_specs = es\<rparr> of
      Inl e \<Rightarrow> False
    | Inr t \<Rightarrow> node_names t = [(''h1'', False), (''s1'', True), (''h2'', False), (''s2'', True),
                               (''h3'', False), (''s3'', True)]
        \<and> link_pairs t = [(''h1'', ''s1''), (''h2'', ''s2''), (''h3'', ''s3'')])"
  by (simp add: addHosts_eval) (simp add: fmt_d_small)

lemma addHosts_2_2:
  "(case addHosts 40 2 2 pps 1 \<lparr>t_nodes = [], t_links = [], node_specs = ns, edge_specs = es\<rparr> of
      Inl e \<Rightarrow> False
    | Inr t \<Rightarrow> node_names t = [(''h1'', False), (''s1'', True), (''h2'', False), (''s2'', True)]
        \<and> link_pairs t = [(''h1'', ''s1''), (''h2'', ''s2'')])"
  by (simp add: addHosts_eval) (simp add: fmt_d_small)

lemma addHosts_4_0:
  "(case addHosts 40 4 0 pps 1 \<lparr>t_nodes = [], t_links = [], node_specs = ns, edge_specs = es\<rparr> of
      Inl e \<Rightarrow> False
    | Inr t \<Rightarrow> node_names t = [(''s1'', True), (''s2'', True), (''s3'', True), (''s4'', True)]
        \<and> link_pairs t = [])"
  by (simp add: addHosts_eval) (simp add: fmt_d_small)

lemma switches_3:
  "filter (\<lambda>n. case find (\<lambda>p. fst p = n)
                      (rev [(''h1'', False), (''s1'', True), (''h2'', False), (''s2'', True),
                            (''h3'', False), (''s3'', True)]) of
                 Some p \<Rightarrow> snd p | None \<Rightarrow> False)
     (remdups (map fst [(''h1'', False), (''s1'', True), (''h2'', False), (''s2'', True),
                        (''h3'', False), (''s3'', True)]))
   = [''s1'', ''s2'', ''s3'']"
  by simp

lemma switches_2:
  "filter (\<lambda>n. case find (\<lambda>p. fst p = n)
                      (rev [(''h1'', False), (''s1'', True), (''h2'', False), (''s2'', True)]) of
                 Some p \<Rightarrow> snd p | None \<Rightarrow> False)
     (remdups (map fst [(''h1'', False), (''s1'', True), (''h2'', False), (''s2'', True)]))
   = [''s1'', ''s2'']"
  by simp

lemma switches_4:
  "filter (\<lambda>n. case find (\<lambda>p. fst p = n)
                      (rev [(''s1'', True), (''s2'', True), (''s3'', True), (''s4'', True)]) of
                 Some p \<Rightarrow> snd p | None \<Rightarrow> False)
     (remdups (map fst [(''s1'', True), (''s2'', True), (''s3'', True), (''s4'', True)]))
   = [''s1'', ''s2'', ''s3'', ''s4'']"
  by simp

text \<open>
  Claim C1, on the code: three switches with one host each and \<open>ports_per_switch = 2\<close>,
  so every switch has one free port. The first loop drops a switch from the candidates
  when its link count equals \<open>ports_per_switch\<close>, not the free-port budget
  \<open>ports_per_switch - hosts_attached\<close>; the run ends with the three switches linked in a
  triangle, \<open>s1\<close> carries one host link and two switch links, and its port budget is \<open>-1\<close>.
  (The node specification the constructor stores gives such a switch
  \<open>ports_per_switch - hosts_per_switch\<close> up-links.)
\<close>

theorem degree_exceeds_free_ports:
  "(case JellyfishTopo_init (\<lambda>seed. replay [0, 1, 2, 0, 0, 1]) (\<lambda>xs. xs) (replay []) 0 3 3 2 1 40 of
      Some (Inr (t, g)) \<Rightarrow>
        link_pairs t = [(''h1'', ''s1''), (''h2'', ''s2''), (''h3'', ''s3''),
                        (''s1'', ''s2''), (''s3'', ''s1''), (''s2'', ''s3'')]
        \<and> hosts_attached t ''s1'' = 1 \<and> inter_switch_degree t ''s1'' = 2
        \<and> port_budget 2 t ''s1'' = - 1
    | _ \<Rightarrow> False)"
proof -
  have b: "build_links 2 \<lparr>switch_list = [''s1'', ''s2'', ''s3''], added_links = [],
                          gen = replay [0, 1, 2, 0, 0, 1]\<rparr>
      = Some (Inr \<lparr>switch_list = [],
                   added_links = [(''s1'', ''s2''), (''s3'', ''s1''), (''s2'', ''s3'')],
                   gen = replay []\<rparr>)"
    by (simp add: build_eval)
  from JellyfishTopo_init_run [where rs = "\<lambda>seed. replay [0, 1, 2, 0, 0, 1]"
        and srt = "\<lambda>xs. xs" and seed = 0 and ?g0.0 = "replay []", OF addHosts_3_3 switches_3 b]
  obtain t where
    r: "JellyfishTopo_init (\<lambda>seed. replay [0, 1, 2, 0, 0, 1]) (\<lambda>xs. xs) (replay []) 0 3 3 2 1 40
          = Some (Inr (t, replay []))"
    and nn: "node_names t = [(''h1'', False), (''s1'', True), (''h2'', False), (''s2'', True),
                        (''h3'', False), (''s3'', True)]"
    and lp: "link_pairs t = [(''h1'', ''s1''), (''h2'', ''s2''), (''h3'', ''s3''),
                        (''s1'', ''s2''), (''s3'', ''s1''), (''s2'', ''s3'')]"
    by auto
  have "hosts_attached t ''s1'' = 1" "inter_switch_degree t ''s1'' = 2"
    by (simp_all add: hosts_attached_def inter_switch_degree_def isSwitch_names nn lp)
  then show ?thesis unfolding r by (simp add: lp port_budget_def)
qed

text \<open>
  Claim C2, on the code: three switches with one host each and \<open>ports_per_switch = 4\<close>.
  The first loop links every pair once. The second loop then rewires: it removes a drawn
  link \<open>(a, b)\<close> and appends \<open>(s, a)\<close> and \<open>(s, b)\<close> without looking whether those pairs are
  linked already, and the run ends with every unordered pair of switches linked twice.
\<close>

theorem rewiring_duplicates_links:
  "(case JellyfishTopo_init (\<lambda>seed. replay [0, 1, 0, 2, 1, 2, 2, 1, 0]) (\<lambda>xs. xs) (replay [])
           0 3 3 4 1 40 of
      Some (Inr (t, g)) \<Rightarrow>
        link_pairs t = [(''h1'', ''s1''), (''h2'', ''s2''), (''h3'', ''s3''),
                        (''s1'', ''s2''), (''s1'', ''s3''), (''s2'', ''s1''),
                        (''s2'', ''s3''), (''s3'', ''s1''), (''s3'', ''s2'')]
    | _ \<Rightarrow> False)"
proof -
  have b: "build_links 4 \<lparr>switch_list = [''s1'', ''s2'', ''s3''], added_links = [],
                          gen = replay [0, 1, 0, 2, 1, 2, 2, 1, 0]\<rparr>
      = Some (Inr \<lparr>switch_list = [''s1'', ''s2'', ''s3''],
                   added_links = [(''s1'', ''s2''), (''s1'', ''s3''), (''s2'', ''s1''),
                                  (''s2'', ''s3''), (''s3'', ''s1''), (''s3'', ''s2'')],
                   gen = replay []\<rparr>)"
    by (simp add: build_eval)
  from JellyfishTopo_init_run [where rs = "\<lambda>seed. replay [0, 1, 0, 2, 1, 2, 2, 1, 0]"
        and srt = "\<lambda>xs. xs" and seed = 0 and ?g0.0 = "replay []", OF addHosts_3_3 switches_3 b]
  obtain t where
    r: "JellyfishTopo_init (\<lambda>seed. replay [0, 1, 0, 2, 1, 2, 2, 1, 0]) (\<lambda>xs. xs) (replay [])
           0 3 3 4 1 40 = Some (Inr (t, replay []))"
    and lp: "link_pairs t = [(''h1'', ''s1''), (''h2'', ''s2''), (''h3'', ''s3''),
                        (''s1'', ''s2''), (''s1'', ''s3''), (''s2'', ''s1''),
                        (''s2'', ''s3''), (''s3'', ''s1''), (''s3'', ''s2'')]"
    by auto
  show ?thesis unfolding r by (simp add: lp)
qed

text \<open>
  Claim C5, on the code: candidates \<open>s1\<close>, \<open>s2\<close>, \<open>s3\<close>, the link \<open>(s1, s2)\<close>, five ports per
  switch; the step draws \<open>s1\<close> and \<open>s3\<close> and adds \<open>(s1, s3)\<close>. Now \<open>s1\<close> is adjacent to every
  other candidate, and it stays in the candidate list: \<open>switch_is_fully_connected\<close> wants
  both \<open>(switch, s)\<close> and \<open>(s, switch)\<close> among the links, which the first loop never adds
  (\<open>not_fully_connected\<close> takes either), and the link count is compared with
  \<open>ports_per_switch\<close>, not with the free-port budget.
\<close>

theorem phase1_keeps_adjacent_switch:
  "phase1_step 5 \<lparr>switch_list = [''s1'', ''s2'', ''s3''], added_links = [(''s1'', ''s2'')],
                  gen = replay [0, 2]\<rparr>
     = Inr \<lparr>switch_list = [''s1'', ''s2'', ''s3''],
            added_links = [(''s1'', ''s2''), (''s1'', ''s3'')], gen = replay []\<rparr>"
  by (simp add: phase1_step_def choice_3 count_links_with_switch_def)

subsection \<open>Two switches\<close>

lemma nth_two: "[a, b] ! (k mod 2) = a \<or> [a, b] ! (k mod 2) = b"
proof -
  have "k mod 2 = 0 \<or> k mod 2 = 1" by presburger
  then show ?thesis by auto
qed

lemma random_choice_two:
  "\<exists>x g'. random_choice g [a, b] = Inr (x, g') \<and> (x = a \<or> x = b)"
  using nth_two [of a b "g 0"] by (simp add: random_choice_def numeral_2_eq_2)

lemma phase1_step_two:
  assumes "a \<noteq> b" and "3 \<le> pps"
    and "switch_list st = [a, b]" and "added_links st = []"
  shows "\<exists>st'. phase1_step pps st = Inr st' \<and> switch_list st' = [a, b]
           \<and> (added_links st' = [] \<or> added_links st' = [(a, b)] \<or> added_links st' = [(b, a)])"
proof -
  from random_choice_two [of "gen st" a b] obtain x g1 where
    x: "random_choice (gen st) [a, b] = Inr (x, g1)" "x = a \<or> x = b" by blast
  from random_choice_two [of g1 a b] obtain y g2 where
    y: "random_choice g1 [a, b] = Inr (y, g2)" "y = a \<or> y = b" by blast
  from x(2) y(2) consider "x = y" | "x = a \<and> y = b" | "x = b \<and> y = a" by blast
  then show ?thesis
  proof cases
    case 1
    with assms x y show ?thesis by (simp add: phase1_step_def)
  next
    case 2
    with assms x y show ?thesis
      by (simp add: phase1_step_def count_links_with_switch_def)
  next
    case 3
    with assms x y show ?thesis
      by (simp add: phase1_step_def count_links_with_switch_def)
  qed
qed

lemma phase1_two:
  assumes "a \<noteq> b" and "phase1 pps st = Some r"
  shows "3 \<le> pps \<and> switch_list st = [a, b]
     \<and> (added_links st = [] \<or> added_links st = [(a, b)] \<or> added_links st = [(b, a)])
     \<longrightarrow> (\<exists>st'. r = Inr st' \<and> switch_list st' = [a, b]
            \<and> (added_links st' = [(a, b)] \<or> added_links st' = [(b, a)]))"
proof (rule phase1.raw_induct
    [where P = "\<lambda>pps st r. 3 \<le> pps \<and> switch_list st = [a, b]
     \<and> (added_links st = [] \<or> added_links st = [(a, b)] \<or> added_links st = [(b, a)])
     \<longrightarrow> (\<exists>st'. r = Inr st' \<and> switch_list st' = [a, b]
            \<and> (added_links st' = [(a, b)] \<or> added_links st' = [(b, a)]))", OF _ assms(2)])
  fix f :: "int \<Rightarrow> 'a build_state \<Rightarrow> (py_error + 'a build_state) option"
    and pps st r
  assume IH: "\<And>pps st r. f pps st = Some r \<Longrightarrow> 3 \<le> pps \<and> switch_list st = [a, b]
     \<and> (added_links st = [] \<or> added_links st = [(a, b)] \<or> added_links st = [(b, a)])
     \<longrightarrow> (\<exists>st'. r = Inr st' \<and> switch_list st' = [a, b]
            \<and> (added_links st' = [(a, b)] \<or> added_links st' = [(b, a)]))"
    and eq: "(if 1 < length (switch_list st)
                \<and> not_fully_connected (switch_list st) (added_links st)
             then case phase1_step pps st of Inl e \<Rightarrow> Some (Inl e) | Inr st' \<Rightarrow> f pps st'
             else Some (Inr st)) = Some r"
  show "3 \<le> pps \<and> switch_list st = [a, b]
     \<and> (added_links st = [] \<or> added_links st = [(a, b)] \<or> added_links st = [(b, a)])
     \<longrightarrow> (\<exists>st'. r = Inr st' \<and> switch_list st' = [a, b]
            \<and> (added_links st' = [(a, b)] \<or> added_links st' = [(b, a)]))"
  proof
    assume j: "3 \<le> pps \<and> switch_list st = [a, b]
     \<and> (added_links st = [] \<or> added_links st = [(a, b)] \<or> added_links st = [(b, a)])"
    show "\<exists>st'. r = Inr st' \<and> switch_list st' = [a, b]
            \<and> (added_links st' = [(a, b)] \<or> added_links st' = [(b, a)])"
    proof (cases "added_links st = []")
      case True
      from j have pps: "3 \<le> pps" and sl: "switch_list st = [a, b]" by simp_all
      from phase1_step_two [OF assms(1) pps sl True] obtain st1 where
        s: "phase1_step pps st = Inr st1" "switch_list st1 = [a, b]"
          "added_links st1 = [] \<or> added_links st1 = [(a, b)] \<or> added_links st1 = [(b, a)]"
        by blast
      from eq True sl s(1) have "f pps st1 = Some r" by simp
      from IH [OF this] pps s(2,3) show ?thesis by blast
    next
      case False
      with j have l: "added_links st = [(a, b)] \<or> added_links st = [(b, a)]"
        and sl: "switch_list st = [a, b]" by simp_all
      then have "\<not> not_fully_connected (switch_list st) (added_links st)" by auto
      with eq have "r = Inr st" by simp
      with l sl show ?thesis by simp
    qed
  qed
qed

lemma phase2_two:
  assumes "a \<noteq> b" and "phase2 pps st = Some r"
  shows "3 \<le> pps \<and> switch_list st = [a, b]
     \<and> (added_links st = [(a, b)] \<or> added_links st = [(b, a)]) \<longrightarrow> False"
proof (rule phase2.raw_induct
    [where P = "\<lambda>pps st r. 3 \<le> pps \<and> switch_list st = [a, b]
     \<and> (added_links st = [(a, b)] \<or> added_links st = [(b, a)]) \<longrightarrow> False", OF _ assms(2)])
  fix f :: "int \<Rightarrow> 'a build_state \<Rightarrow> (py_error + 'a build_state) option"
    and pps st r
  assume IH: "\<And>pps st r. f pps st = Some r \<Longrightarrow> 3 \<le> pps \<and> switch_list st = [a, b]
     \<and> (added_links st = [(a, b)] \<or> added_links st = [(b, a)]) \<longrightarrow> False"
    and eq: "(case phase2_pass pps (switch_list st) (True, st) of
                Inl e \<Rightarrow> Some (Inl e)
              | Inr cs \<Rightarrow> if fst cs then Some (Inr (snd cs)) else f pps (snd cs)) = Some r"
  show "3 \<le> pps \<and> switch_list st = [a, b]
     \<and> (added_links st = [(a, b)] \<or> added_links st = [(b, a)]) \<longrightarrow> False"
  proof
    assume j: "3 \<le> pps \<and> switch_list st = [a, b]
     \<and> (added_links st = [(a, b)] \<or> added_links st = [(b, a)])"
    let ?st' = "st\<lparr>gen := (\<lambda>k. gen st (Suc (Suc k)))\<rparr>"
    have "phase2_pass pps (switch_list st) (True, st) = Inr (False, ?st')"
    proof -
      from j consider "added_links st = [(a, b)]" | "added_links st = [(b, a)]" by blast
      then show ?thesis
      proof cases
        case 1
        with j assms(1) show ?thesis
          by (simp add: phase2_visit_def random_choice_def count_links_with_switch_def)
      next
        case 2
        with j assms(1) show ?thesis
          by (simp add: phase2_visit_def random_choice_def count_links_with_switch_def)
      qed
    qed
    with eq have "f pps ?st' = Some r" by simp
    from IH [OF this] j show False by simp
  qed
qed

text \<open>Two switches and three or more ports each: whatever is drawn, the two loops never
  return. The first loop can only end with the one link between the two; the second then
  draws that link in every pass, finds the switch on it and skips.\<close>

lemma build_links_two_switches:
  assumes "a \<noteq> b" and "3 \<le> pps"
  shows "build_links pps \<lparr>switch_list = [a, b], added_links = [], gen = g\<rparr> = None"
proof (cases "phase1 pps \<lparr>switch_list = [a, b], added_links = [], gen = g\<rparr>")
  case None
  then show ?thesis by (simp add: build_links_def)
next
  case (Some r)
  from phase1_two [OF assms(1) Some] assms(2) obtain st1 where
    st1: "r = Inr st1" "switch_list st1 = [a, b]"
      "added_links st1 = [(a, b)] \<or> added_links st1 = [(b, a)]"
    by auto
  have "phase2 pps st1 = None"
  proof (rule ccontr)
    assume "phase2 pps st1 \<noteq> None"
    then obtain r2 where "phase2 pps st1 = Some r2" by blast
    from phase2_two [OF assms(1) this] assms(2) st1(2,3) show False by blast
  qed
  with Some st1(1) show ?thesis by (simp add: build_links_def)
qed

text \<open>Claim C3: for every seed and every parameter set that is feasible, the whole
  construction terminates, and in the resulting graph every switch has exhausted its port budget
  or is adjacent to all other switches. The code does neither. With two switches, one host each
  and three ports per switch the constructor never returns, whatever the random source, the seed
  and the state of the generator before the call: the first loop ends with the one link between
  the two switches, and \<open>switch_is_fully_connected\<close>, which wants both orientations of
  a link, never sees the two as adjacent, so that the second loop draws that link in every pass,
  finds the switch on it and skips. With four switches, no host and two ports per switch the
  draws (s1, s2), (s1, s3), (s2, s3) take s1, s2 and s3 out of the candidates; the second loop
  tests the lone candidate s4 against an empty rest, takes it as fully connected and returns:
  s4 is linked to nothing and has both of its ports free.\<close>

theorem construction_hangs_or_strands_switch:
  "JellyfishTopo_init random_seed (\<lambda>xs. xs) g0 seed 2 2 3 1 40 = None
   \<and> (case JellyfishTopo_init (\<lambda>seed. replay [0, 1, 0, 2, 0, 1]) (\<lambda>xs. xs) (replay [])
             0 4 0 2 1 40 of
        Some (Inr (t, g)) \<Rightarrow>
          node_names t = [(''s1'', True), (''s2'', True), (''s3'', True), (''s4'', True)]
          \<and> link_pairs t = [(''s1'', ''s2''), (''s1'', ''s3''), (''s2'', ''s3'')]
          \<and> inter_switch_degree t ''s4'' = 0 \<and> port_budget 2 t ''s4'' = 2
      | _ \<Rightarrow> False)"
proof
  have b: "build_links 3 \<lparr>switch_list = [''s1'', ''s2''], added_links = [],
                          gen = random_seed seed\<rparr> = None"
    by (rule build_links_two_switches) simp_all
  show "JellyfishTopo_init random_seed (\<lambda>xs. xs) g0 seed 2 2 3 1 40 = None"
    by (rule JellyfishTopo_init_diverges [where rs = random_seed and seed = seed
          and srt = "\<lambda>xs. xs", OF addHosts_2_2 switches_2 b])
next
  have b: "build_links 2 \<lparr>switch_list = [''s1'', ''s2'', ''s3'', ''s4''], added_links = [],
                          gen = replay [0, 1, 0, 2, 0, 1]\<rparr>
      = Some (Inr \<lparr>switch_list = [''s4''],
                   added_links = [(''s1'', ''s2''), (''s1'', ''s3''), (''s2'', ''s3'')],
                   gen = replay []\<rparr>)"
    by (simp add: build_eval)
  from JellyfishTopo_init_run [where rs = "\<lambda>seed. replay [0, 1, 0, 2, 0, 1]"
        and srt = "\<lambda>xs. xs" and seed = 0 and ?g0.0 = "replay []", OF addHosts_4_0 switches_4 b]
  obtain t where
    r: "JellyfishTopo_init (\<lambda>seed. replay [0, 1, 0, 2, 0, 1]) (\<lambda>xs. xs) (replay [])
             0 4 0 2 1 40 = Some (Inr (t, replay []))"
    and nn: "node_names t = [(''s1'', True), (''s2'', True), (''s3'', True), (''s4'', True)]"
    and lp: "link_pairs t = [(''s1'', ''s2''), (''s1'', ''s3''), (''s2'', ''s3'')]"
    by auto
  have "hosts_attached t ''s4'' = 0" "inter_switch_degree t ''s4'' = 0"
    by (simp_all add: hosts_attached_def inter_switch_degree_def isSwitch_names nn lp)
  then show "(case JellyfishTopo_init (\<lambda>seed. replay [0, 1, 0, 2, 0, 1]) (\<lambda>xs. xs) (replay [])
             0 4 0 2 1 40 of
        Some (Inr (t, g)) \<Rightarrow>
          node_names t = [(''s1'', True), (''s2'', True), (''s3'', True), (''s4'', True)]
          \<and> link_pairs t = [(''s1'', ''s2''), (''s1'', ''s3''), (''s2'', ''s3'')]
          \<and> inter_switch_degree t ''s4'' = 0 \<and> port_budget 2 t ''s4'' = 2
      | _ \<Rightarrow> False)"
    unfolding r by (simp add: nn lp port_budget_def)
qed

end
